theory Spec2Isabelle
  imports Main "HOL-Library.Word"
begin

unbundle bit_operations_syntax

section \<open>Data model of \<^verbatim>\<open>src/kernel/threads.cpp\<close>\<close>

text \<open>
  Addresses (\<^verbatim>\<open>void*\<close>) are 64-bit words, the null pointer is \<open>0\<close>. A pointer to a
  \<^verbatim>\<open>Thread\<close> is either the address of the \<^verbatim>\<open>main_thread\<close> member of a CPU's manager or
  the address of an object made by \<^verbatim>\<open>new\<close>; a nullable \<^verbatim>\<open>Thread*\<close> is a \<open>tptr option\<close>.
\<close>

type_synonym addr = "64 word"

datatype tptr = Main_thread nat | Heap_thread nat

text \<open>
  The fields of \<^verbatim>\<open>struct Thread\<close> that the source file reads or writes. \<open>tid\<close> holds the
  value of the \<^verbatim>\<open>int\<close> handed to \<^verbatim>\<open>Thread::init\<close>.
\<close>

record Thread =
  self :: "tptr option"
  tid :: int
  yielded :: bool
  parent :: "tptr option"
  my_tls :: addr
  my_stack :: addr
  stored_stack :: addr
  stored_nexti :: addr
  clear_tid :: addr
  children :: "tptr list"

text \<open>
  \<^verbatim>\<open>ThreadManager\<close>: the registry \<^verbatim>\<open>threads\<close> (an associative container keyed by thread
  id, used through \<^verbatim>\<open>find\<close>, \<^verbatim>\<open>emplace\<close> and \<^verbatim>\<open>erase\<close>), the deque \<^verbatim>\<open>suspended\<close> and
  the member object \<^verbatim>\<open>main_thread\<close>.
\<close>

record ThreadManager =
  threads :: "int \<rightharpoonup> tptr"
  suspended :: "tptr list"
  main_thread :: Thread

text \<open>
  The kernel state: the process-wide \<^verbatim>\<open>thread_counter\<close> (a \<^verbatim>\<open>long\<close>, 64 bits on
  x86-64, the only architecture the file compiles for), the per-CPU array
  \<^verbatim>\<open>thread_managers\<close> with its number of slots, the CPU that executes the code, the
  \<^verbatim>\<open>Thread\<close> objects on the free store, every CPU's thread-area register (FS base), the
  \<^verbatim>\<open>kthread\<close> slot of the \<^verbatim>\<open>libc_internal\<close> block at each address, and the memory
  written through \<^verbatim>\<open>ctid\<close> and \<^verbatim>\<open>clear_tid\<close>, byte by byte.
\<close>

record kstate =
  thread_counter :: "64 word"
  max_cores :: nat
  thread_managers :: "nat \<Rightarrow> ThreadManager"
  cpu_id :: nat
  heap :: "nat \<rightharpoonup> Thread"
  fs_base :: "nat \<Rightarrow> addr"
  kthread :: "addr \<rightharpoonup> tptr"
  user_mem :: "addr \<Rightarrow> 8 word"

text \<open>
  How a call ends: it returns a value, it transfers control into a saved continuation and
  never returns (\<^verbatim>\<open>__clone_return\<close>, \<^verbatim>\<open>__thread_restore\<close>), it throws a C++ exception
  that a caller may catch (the state reached so far is kept), or it stops the kernel: a
  failed \<^verbatim>\<open>assert\<close> (assertions are taken as compiled in), or the use of a pointer to no
  live object, which is undefined behaviour in the source.
\<close>

datatype fatal = Assert_failed | Segfault

datatype exn = Bad_alloc | Out_of_range

datatype jump = Clone_return addr addr | Thread_restore addr addr

datatype 'a outcome =
    Returns 'a kstate
  | Jumps jump kstate
  | Throws exn kstate
  | Halts fatal

definition and_then :: "'a outcome \<Rightarrow> ('a \<Rightarrow> kstate \<Rightarrow> 'b outcome) \<Rightarrow> 'b outcome" where
  "and_then r f =
     (case r of
        Returns x s \<Rightarrow> f x s
      | Jumps j s \<Rightarrow> Jumps j s
      | Throws e s \<Rightarrow> Throws e s
      | Halts h \<Rightarrow> Halts h)"

text \<open>Steps that neither jump nor throw.\<close>

definition plain :: "'a outcome \<Rightarrow> bool" where
  "plain r = (case r of Returns x s \<Rightarrow> True | Halts h \<Rightarrow> True | _ \<Rightarrow> False)"

text \<open>
  The outcomes of the requests to the allocator that one call makes: the address that
  \<^verbatim>\<open>new Thread\<close> returns, or none for \<^verbatim>\<open>std::bad_alloc\<close>, and whether the \<^verbatim>\<open>push_back\<close>
  and the \<^verbatim>\<open>emplace\<close> get their memory. Where a single call allocates once, the outcome
  is a Boolean argument of the operation.
\<close>

record allocator =
  new_Thread :: "nat option"
  push_back_ok :: bool
  emplace_ok :: bool

section \<open>User memory\<close>

text \<open>
  A store through a pointer writes the bytes of the object from the pointer's address on.
  On x86-64 a \<^verbatim>\<open>pid_t\<close> is a 32-bit \<^verbatim>\<open>int\<close>, stored as four bytes with the least
  significant first, and a \<^verbatim>\<open>pthread_t\<close> takes eight bytes.
\<close>

fun store_bytes :: "addr \<Rightarrow> 8 word list \<Rightarrow> (addr \<Rightarrow> 8 word) \<Rightarrow> (addr \<Rightarrow> 8 word)" where
  "store_bytes a [] m = m"
| "store_bytes a (b # bs) m = store_bytes (a + 1) bs (m(a := b))"

definition pid_t_bytes :: "32 word \<Rightarrow> 8 word list" where
  "pid_t_bytes v = [ucast v, ucast (drop_bit 8 v), ucast (drop_bit 16 v), ucast (drop_bit 24 v)]"

text \<open>The \<^verbatim>\<open>pid_t\<close> that a reader finds at an address.\<close>

definition read_pid_t :: "(addr \<Rightarrow> 8 word) \<Rightarrow> addr \<Rightarrow> 32 word" where
  "read_pid_t m a =
     ucast (m a) OR push_bit 8 (ucast (m (a + 1))) OR push_bit 16 (ucast (m (a + 2))) OR
     push_bit 24 (ucast (m (a + 3)))"

section \<open>Pointers and managers\<close>

definition upd_manager :: "nat \<Rightarrow> (ThreadManager \<Rightarrow> ThreadManager) \<Rightarrow> kstate \<Rightarrow> kstate" where
  "upd_manager c f s = s\<lparr>thread_managers := (thread_managers s)(c := f (thread_managers s c))\<rparr>"

fun deref :: "kstate \<Rightarrow> tptr \<Rightarrow> Thread option" where
  "deref s (Main_thread c) =
     (if c < max_cores s then Some (main_thread (thread_managers s c)) else None)"
| "deref s (Heap_thread a) = heap s a"

fun store :: "tptr \<Rightarrow> Thread \<Rightarrow> kstate \<Rightarrow> kstate" where
  "store (Main_thread c) t s = upd_manager c (\<lambda>m. m\<lparr>main_thread := t\<rparr>) s"
| "store (Heap_thread a) t s = s\<lparr>heap := (heap s)(a \<mapsto> t)\<rparr>"

text \<open>A write to fields of the object behind a pointer; an invalid pointer stops the kernel.\<close>

definition modify :: "tptr \<Rightarrow> (Thread \<Rightarrow> Thread) \<Rightarrow> kstate \<Rightarrow> unit outcome" where
  "modify p f s =
     (case deref s p of
        None \<Rightarrow> Halts Segfault
      | Some t \<Rightarrow> Returns () (store p (f t) s))"

text \<open>\<^verbatim>\<open>ThreadManager::get()\<close> is the manager of the executing CPU, as a reference.\<close>

definition ThreadManager_get :: "kstate \<Rightarrow> nat" where
  "ThreadManager_get s = cpu_id s"

text \<open>\<^verbatim>\<open>ThreadManager::get(int cpu)\<close> is \<^verbatim>\<open>thread_managers.at(cpu)\<close>, which checks the range.\<close>

definition ThreadManager_get_cpu :: "int \<Rightarrow> kstate \<Rightarrow> nat option" where
  "ThreadManager_get_cpu cpu s =
     (if 0 \<le> cpu \<and> nat cpu < max_cores s then Some (nat cpu) else None)"

section \<open>The thread-id allocator\<close>

definition generate_new_thread_id :: "kstate \<Rightarrow> 64 word \<times> kstate" where
  "generate_new_thread_id s = (thread_counter s, s\<lparr>thread_counter := thread_counter s + 1\<rparr>)"

definition get_last_thread_id :: "kstate \<Rightarrow> 64 word" where
  "get_last_thread_id s = thread_counter s - 1"

section \<open>The thread area\<close>

text \<open>
  Modelled from the spec: \<^verbatim>\<open>syscall_SYS_set_thread_area\<close> and the read of the FS base are
  external; the spec's \<^verbatim>\<open>writeThreadStorageRegister\<close> and \<^verbatim>\<open>readThreadStorageRegister\<close>
  set and get the executing CPU's per-thread storage base.
\<close>

definition set_thread_area :: "addr \<Rightarrow> kstate \<Rightarrow> kstate" where
  "set_thread_area new_area s = s\<lparr>fs_base := (fs_base s)(cpu_id s := new_area)\<rparr>"

definition get_thread_area :: "kstate \<Rightarrow> addr" where
  "get_thread_area s = fs_base s (cpu_id s)"

text \<open>
  Modelled from the spec: \<^verbatim>\<open>get_thread()\<close> without an argument is declared in the header;
  by the spec the executing thread is recovered from the storage register alone, through
  the back-pointer that \<^verbatim>\<open>activate\<close> writes into the storage block.
\<close>

definition get_thread_self :: "kstate \<Rightarrow> tptr option" where
  "get_thread_self s = kthread s (get_thread_area s)"

section \<open>Thread\<close>

definition Thread_init :: "tptr \<Rightarrow> 32 word \<Rightarrow> kstate \<Rightarrow> unit outcome" where
  "Thread_init this tid_arg s = modify this (\<lambda>t. t\<lparr>self := Some this, tid := sint tid_arg\<rparr>) s"

definition libc_store_this :: "tptr \<Rightarrow> kstate \<Rightarrow> unit outcome" where
  "libc_store_this this s =
     (case deref s this of
        None \<Rightarrow> Halts Segfault
      | Some t \<Rightarrow> Returns () (s\<lparr>kthread := (kthread s)(my_tls t \<mapsto> this)\<rparr>))"

definition store_return :: "tptr \<Rightarrow> addr \<Rightarrow> addr \<Rightarrow> kstate \<Rightarrow> unit outcome" where
  "store_return this ret_instr ret_stack s =
     modify this (\<lambda>t. t\<lparr>stored_nexti := ret_instr, stored_stack := ret_stack\<rparr>) s"

definition Thread_activate :: "tptr \<Rightarrow> addr \<Rightarrow> kstate \<Rightarrow> unit outcome" where
  "Thread_activate this newtls s =
     and_then (modify this (\<lambda>t. t\<lparr>my_tls := newtls\<rparr>) s) (\<lambda>_ s1.
     and_then (libc_store_this this s1) (\<lambda>_ s2.
       (case deref s2 this of
          None \<Rightarrow> Halts Segfault
        | Some t \<Rightarrow> Returns () (set_thread_area (my_tls t) s2))))"

text \<open>
  Modelled from the spec: \<^verbatim>\<open>ThreadManager::suspend\<close> is declared in the header; by the
  spec it registers the thread into the suspended queue, a FIFO sequence in the order of
  suspension, and the insertion may fail as an allocation failure.
\<close>

definition ThreadManager_suspend :: "bool \<Rightarrow> nat \<Rightarrow> tptr \<Rightarrow> kstate \<Rightarrow> unit outcome" where
  "ThreadManager_suspend ok c t s =
     (if ok then Returns () (upd_manager c (\<lambda>m. m\<lparr>suspended := suspended m @ [t]\<rparr>) s)
      else Throws Bad_alloc s)"

definition Thread_suspend :: "bool \<Rightarrow> tptr \<Rightarrow> addr \<Rightarrow> addr \<Rightarrow> kstate \<Rightarrow> unit outcome" where
  "Thread_suspend ok this ret_instr ret_stack s =
     and_then (store_return this ret_instr ret_stack s) (\<lambda>_ s1.
       ThreadManager_suspend ok (ThreadManager_get s1) this s1)"

definition Thread_resume :: "tptr \<Rightarrow> kstate \<Rightarrow> unit outcome" where
  "Thread_resume this s =
     (case deref s this of
        None \<Rightarrow> Halts Segfault
      | Some t \<Rightarrow>
          if \<not> yielded t
          then Jumps (Clone_return (stored_nexti t) (stored_stack t)) (set_thread_area (my_tls t) s)
          else Jumps (Thread_restore (stored_nexti t) (stored_stack t))
                 (set_thread_area (my_tls t) (store this (t\<lparr>yielded := False\<rparr>) s)))"

section \<open>ThreadManager\<close>

definition insert_thread :: "bool \<Rightarrow> nat \<Rightarrow> tptr \<Rightarrow> kstate \<Rightarrow> unit outcome" where
  "insert_thread ok c thread s =
     (case deref s thread of
        None \<Rightarrow> Halts Segfault
      | Some t \<Rightarrow>
          if \<not> ok then Throws Bad_alloc s
          else Returns ()
                 (upd_manager c
                    (\<lambda>m. case threads m (tid t) of
                            None \<Rightarrow> m\<lparr>threads := (threads m)(tid t \<mapsto> thread)\<rparr>
                          | Some _ \<Rightarrow> m) s))"

definition erase_thread_safely :: "nat \<Rightarrow> tptr option \<Rightarrow> kstate \<Rightarrow> unit outcome" where
  "erase_thread_safely c thread s =
     (case thread of
        None \<Rightarrow> Halts Assert_failed
      | Some p \<Rightarrow>
          (case deref s p of
             None \<Rightarrow> Halts Segfault
           | Some t \<Rightarrow>
               (case threads (thread_managers s c) (tid t) of
                  None \<Rightarrow> Halts Assert_failed
                | Some q \<Rightarrow>
                    if q \<noteq> p then Halts Assert_failed
                    else Returns ()
                           (upd_manager c (\<lambda>m. m\<lparr>threads := (threads m)(tid t := None)\<rparr>) s))))"

definition wakeup_next :: "nat \<Rightarrow> kstate \<Rightarrow> tptr outcome" where
  "wakeup_next c s =
     (case suspended (thread_managers s c) of
        [] \<Rightarrow> Halts Assert_failed
      | next # rest \<Rightarrow> Returns next (upd_manager c (\<lambda>m. m\<lparr>suspended := rest\<rparr>) s))"

fun erase_each :: "tptr \<Rightarrow> tptr list \<Rightarrow> tptr list" where
  "erase_each t [] = []"
| "erase_each t (x # xs) = (if x = t then erase_each t xs else x # erase_each t xs)"

definition erase_suspension :: "nat \<Rightarrow> tptr \<Rightarrow> kstate \<Rightarrow> kstate" where
  "erase_suspension c t s = upd_manager c (\<lambda>m. m\<lparr>suspended := erase_each t (suspended m)\<rparr>) s"

definition get_thread :: "int \<Rightarrow> kstate \<Rightarrow> tptr option" where
  "get_thread tid_arg s = threads (thread_managers s (ThreadManager_get s)) tid_arg"

definition resume :: "int \<Rightarrow> kstate \<Rightarrow> unit outcome" where
  "resume tid_arg s =
     (case get_thread tid_arg s of
        None \<Rightarrow> Halts Assert_failed
      | Some th \<Rightarrow> Thread_resume th s)"

definition migrate :: "bool \<Rightarrow> nat \<Rightarrow> int \<Rightarrow> int \<Rightarrow> kstate \<Rightarrow> unit outcome" where
  "migrate ok this tid_arg cpu s =
     (case get_thread tid_arg s of
        None \<Rightarrow> Halts Assert_failed
      | Some thread \<Rightarrow>
          and_then (erase_thread_safely this (Some thread) s) (\<lambda>_ s1.
            (case ThreadManager_get_cpu cpu s1 of
               None \<Rightarrow> Throws Out_of_range s1
             | Some c \<Rightarrow> insert_thread ok c thread s1)))"

section \<open>Yield and exit\<close>

definition Thread_yield :: "tptr \<Rightarrow> kstate \<Rightarrow> unit outcome" where
  "Thread_yield this s =
     and_then (wakeup_next (ThreadManager_get s) s) (\<lambda>next s1.
     and_then (modify this (\<lambda>t. t\<lparr>yielded := True\<rparr>) s1) (\<lambda>_ s2.
       Thread_resume next s2))"

text \<open>The loop over \<^verbatim>\<open>this->children\<close> that points every child at the main thread.\<close>

fun detach_children :: "tptr list \<Rightarrow> kstate \<Rightarrow> unit outcome" where
  "detach_children [] s = Returns () s"
| "detach_children (child # rest) s =
     and_then (modify child (\<lambda>t. t\<lparr>parent := Some (Main_thread (ThreadManager_get s))\<rparr>) s)
       (\<lambda>_. detach_children rest)"

text \<open>The loop over the parent's \<^verbatim>\<open>children\<close> that erases the first match and breaks.\<close>

fun erase_first :: "tptr \<Rightarrow> tptr list \<Rightarrow> tptr list" where
  "erase_first t [] = []"
| "erase_first t (x # xs) = (if x = t then xs else x # erase_first t xs)"

text \<open>\<^verbatim>\<open>delete this\<close>: only an object of the free store can be released.\<close>

definition delete_Thread :: "tptr \<Rightarrow> kstate \<Rightarrow> unit outcome" where
  "delete_Thread p s =
     (case p of
        Main_thread c \<Rightarrow> Halts Segfault
      | Heap_thread a \<Rightarrow>
          (case heap s a of
             None \<Rightarrow> Halts Segfault
           | Some _ \<Rightarrow> Returns () (s\<lparr>heap := (heap s)(a := None)\<rparr>)))"

text \<open>
  \<^verbatim>\<open>if (this->clear_tid) *(pthread_t*) this->clear_tid = 0\<close>: the store is as wide as a
  \<^verbatim>\<open>pthread_t\<close>, eight bytes of zero.
\<close>

definition clear_child_tid :: "tptr \<Rightarrow> kstate \<Rightarrow> unit outcome" where
  "clear_child_tid this s =
     (case deref s this of
        None \<Rightarrow> Halts Segfault
      | Some t \<Rightarrow>
          if clear_tid t \<noteq> 0
          then Returns () (s\<lparr>user_mem := store_bytes (clear_tid t) (replicate 8 0) (user_mem s)\<rparr>)
          else Returns () s)"

definition remove_from_parent :: "tptr \<Rightarrow> kstate \<Rightarrow> unit outcome" where
  "remove_from_parent this s =
     (case deref s this of
        None \<Rightarrow> Halts Segfault
      | Some t \<Rightarrow>
          (case parent t of
             None \<Rightarrow> Halts Segfault
           | Some par \<Rightarrow> modify par (\<lambda>pt. pt\<lparr>children := erase_first this (children pt)\<rparr>) s))"

text \<open>
  The end of \<^verbatim>\<open>Thread::exit\<close>, from the \<^verbatim>\<open>CLONE_CHILD_CLEARTID\<close> write on: the thread leaves
  the registry of the executing CPU and is deleted; \<open>next\<close>, the copy of its parent
  pointer, is resumed when the thread exits itself.
\<close>

definition release_and_resume :: "bool \<Rightarrow> tptr \<Rightarrow> tptr option \<Rightarrow> kstate \<Rightarrow> unit outcome" where
  "release_and_resume exiting_myself this next s =
     and_then (clear_child_tid this s) (\<lambda>_ s3.
     and_then (erase_thread_safely (ThreadManager_get s3) (Some this) s3) (\<lambda>_ s4.
     and_then (delete_Thread this s4) (\<lambda>_ s5.
       if exiting_myself
       then (case next of
               None \<Rightarrow> Halts Segfault
             | Some n \<Rightarrow> Thread_resume n (erase_suspension (ThreadManager_get s5) n s5))
       else Returns () s5)))"

definition Thread_exit :: "tptr \<Rightarrow> kstate \<Rightarrow> unit outcome" where
  "Thread_exit this s =
     (let exiting_myself = (get_thread_self s = Some this) in
      case deref s this of
        None \<Rightarrow> Halts Segfault
      | Some t \<Rightarrow>
          if parent t = None then Halts Assert_failed
          else
            and_then (detach_children (children t) s) (\<lambda>_ s1.
            and_then (remove_from_parent this s1) (\<lambda>_ s2.
              (case deref s2 this of
                 None \<Rightarrow> Halts Segfault
               | Some t2 \<Rightarrow> release_and_resume exiting_myself this (parent t2) s2))))"

section \<open>Thread creation\<close>

text \<open>
  Modelled from the spec: the default member initialisers of \<^verbatim>\<open>struct Thread\<close> are in
  the header; by the spec a new thread is in resume mode \<^verbatim>\<open>FreshReturn\<close>, has no
  clear-on-exit address and no children.
\<close>

definition fresh_Thread :: Thread where
  "fresh_Thread =
     \<lparr>self = None, tid = 0, yielded = False, parent = None, my_tls = 0, my_stack = 0,
      stored_stack = 0, stored_nexti = 0, clear_tid = 0, children = []\<rparr>"

text \<open>
  Modelled from the spec: the SETTID-style and CLEARTID-style flags are macros of the
  platform's \<^verbatim>\<open>sched.h\<close>; the values are those of the Linux interface.
\<close>

definition CLONE_CHILD_SETTID :: "32 word" where
  "CLONE_CHILD_SETTID = 0x01000000"

definition CLONE_CHILD_CLEARTID :: "32 word" where
  "CLONE_CHILD_CLEARTID = 0x00200000"

text \<open>\<^verbatim>\<open>thread->parent->children.push_back(thread)\<close>\<close>

definition push_child :: "bool \<Rightarrow> tptr \<Rightarrow> kstate \<Rightarrow> unit outcome" where
  "push_child ok thread s =
     (case deref s thread of
        None \<Rightarrow> Halts Segfault
      | Some t \<Rightarrow>
          (case parent t of
             None \<Rightarrow> Halts Segfault
           | Some p \<Rightarrow>
               (case deref s p of
                  None \<Rightarrow> Halts Segfault
                | Some pt \<Rightarrow>
                    if ok then Returns () (store p (pt\<lparr>children := children pt @ [thread]\<rparr>) s)
                    else Throws Bad_alloc s)))"

text \<open>
  \<^verbatim>\<open>if (flags & CLONE_CHILD_SETTID) *(pid_t*) ctid = thread->tid\<close>: the id is narrowed to
  a \<^verbatim>\<open>pid_t\<close> and its four bytes are stored at \<open>ctid\<close>; a store through the null pointer
  stops the kernel.
\<close>

definition write_child_tid :: "tptr \<Rightarrow> 32 word \<Rightarrow> addr \<Rightarrow> kstate \<Rightarrow> unit outcome" where
  "write_child_tid thread flags ctid s =
     (if flags AND CLONE_CHILD_SETTID \<noteq> 0
      then (case deref s thread of
              None \<Rightarrow> Halts Segfault
            | Some t \<Rightarrow>
                if ctid = 0 then Halts Segfault
                else Returns ()
                       (s\<lparr>user_mem :=
                            store_bytes ctid (pid_t_bytes (word_of_int (tid t))) (user_mem s)\<rparr>))
      else Returns () s)"

definition record_clear_tid :: "tptr \<Rightarrow> 32 word \<Rightarrow> addr \<Rightarrow> kstate \<Rightarrow> unit outcome" where
  "record_clear_tid thread flags ctid s =
     (if flags AND CLONE_CHILD_CLEARTID \<noteq> 0
      then modify thread (\<lambda>t. t\<lparr>clear_tid := ctid\<rparr>) s
      else Returns () s)"

text \<open>The \<^verbatim>\<open>try\<close> block of \<^verbatim>\<open>thread_create\<close>, with the id already taken.\<close>

definition thread_create_try ::
  "allocator \<Rightarrow> 32 word \<Rightarrow> tptr option \<Rightarrow> 32 word \<Rightarrow> addr \<Rightarrow> addr \<Rightarrow> kstate \<Rightarrow> tptr outcome" where
  "thread_create_try al tid_arg parent_arg flags ctid stack s =
     (case new_Thread al of
        None \<Rightarrow> Throws Bad_alloc s
      | Some a \<Rightarrow>
          (let thread = Heap_thread a in
           and_then (Thread_init thread tid_arg (s\<lparr>heap := (heap s)(a \<mapsto> fresh_Thread)\<rparr>)) (\<lambda>_ s1.
           and_then (modify thread (\<lambda>t. t\<lparr>parent := parent_arg\<rparr>) s1) (\<lambda>_ s2.
           and_then (push_child (push_back_ok al) thread s2) (\<lambda>_ s3.
           and_then (modify thread (\<lambda>t. t\<lparr>my_stack := stack\<rparr>) s3) (\<lambda>_ s4.
           and_then (write_child_tid thread flags ctid s4) (\<lambda>_ s5.
           and_then (record_clear_tid thread flags ctid s5) (\<lambda>_ s6.
           and_then (insert_thread (emplace_ok al) (ThreadManager_get s6) thread s6) (\<lambda>_ s7.
             Returns thread s7)))))))))"

text \<open>
  \<^verbatim>\<open>thread_create\<close>: the id is taken from the counter and narrowed to \<^verbatim>\<open>int\<close> before the
  \<^verbatim>\<open>try\<close> block; \<^verbatim>\<open>catch (...)\<close> turns every exception into the null pointer.
\<close>

definition thread_create ::
  "allocator \<Rightarrow> tptr option \<Rightarrow> 32 word \<Rightarrow> addr \<Rightarrow> addr \<Rightarrow> kstate \<Rightarrow> tptr option outcome" where
  "thread_create al parent_arg flags ctid stack s =
     (case generate_new_thread_id s of
        (new_id, s0) \<Rightarrow>
          (case thread_create_try al (ucast new_id) parent_arg flags ctid stack s0 of
             Returns thread s1 \<Rightarrow> Returns (Some thread) s1
           | Throws e s1 \<Rightarrow> Returns None s1
           | Jumps j s1 \<Rightarrow> Jumps j s1
           | Halts h \<Rightarrow> Halts h))"

definition setup_main_thread :: "addr \<Rightarrow> kstate \<Rightarrow> unit outcome" where
  "setup_main_thread stack_value s =
     (let main = Main_thread (ThreadManager_get s) in
      and_then (Thread_init main 0 s) (\<lambda>_ s1.
      and_then (modify main (\<lambda>t. t\<lparr>my_stack := stack_value\<rparr>) s1) (\<lambda>_ s2.
        Thread_activate main (get_thread_area s2) s2)))"

definition thread_suspend_and_yield :: "bool \<Rightarrow> addr \<Rightarrow> addr \<Rightarrow> kstate \<Rightarrow> unit outcome" where
  "thread_suspend_and_yield ok next_instr stack s =
     (if suspended (thread_managers s (ThreadManager_get s)) = [] then Returns () s
      else (case get_thread_self s of
              None \<Rightarrow> Halts Segfault
            | Some th \<Rightarrow>
                and_then (Thread_suspend ok th next_instr stack s) (\<lambda>_ s1. Thread_yield th s1)))"

section \<open>Start-up state and sequences of calls\<close>

text \<open>
  The state after static initialisation, for a machine with \<open>n\<close> CPUs, before any CPU has
  run \<^verbatim>\<open>setup_main_thread\<close>: the counter is 1, every registry and queue is empty.
\<close>

definition boot :: "nat \<Rightarrow> kstate" where
  "boot n =
     \<lparr>thread_counter = 1, max_cores = n,
      thread_managers = (\<lambda>_. \<lparr>threads = Map.empty, suspended = [], main_thread = fresh_Thread\<rparr>),
      cpu_id = 0, heap = Map.empty, fs_base = (\<lambda>_. 0), kthread = Map.empty,
      user_mem = (\<lambda>_. 0)\<rparr>"

text \<open>The state in which the kernel goes on after a call, if it does.\<close>

definition continues :: "'a outcome \<Rightarrow> kstate option" where
  "continues r =
     (case r of
        Returns x s \<Rightarrow> Some s
      | Jumps j s \<Rightarrow> Some s
      | Throws e s \<Rightarrow> Some s
      | Halts h \<Rightarrow> None)"

text \<open>The calls of the interface; \<open>On_cpu\<close> lets another CPU execute the next calls.\<close>

datatype call =
    Create allocator "tptr option" "32 word" addr addr
  | Exit tptr
  | Suspend bool tptr addr addr
  | Yield tptr
  | Suspend_and_yield bool addr addr
  | Resume int
  | Resume_thread tptr
  | Activate tptr addr
  | Setup_main addr
  | Migrate bool nat int int
  | Insert bool nat tptr
  | Erase nat "tptr option"
  | Wakeup nat
  | Erase_suspension nat tptr
  | On_cpu nat

fun exec :: "call \<Rightarrow> kstate \<Rightarrow> kstate option" where
  "exec (Create al p flags ctid stack) s = continues (thread_create al p flags ctid stack s)"
| "exec (Exit t) s = continues (Thread_exit t s)"
| "exec (Suspend ok t ni st) s = continues (Thread_suspend ok t ni st s)"
| "exec (Yield t) s = continues (Thread_yield t s)"
| "exec (Suspend_and_yield ok ni st) s = continues (thread_suspend_and_yield ok ni st s)"
| "exec (Resume i) s = continues (resume i s)"
| "exec (Resume_thread t) s = continues (Thread_resume t s)"
| "exec (Activate t a) s = continues (Thread_activate t a s)"
| "exec (Setup_main a) s = continues (setup_main_thread a s)"
| "exec (Migrate ok this i cpu) s = continues (migrate ok this i cpu s)"
| "exec (Insert ok c t) s = continues (insert_thread ok c t s)"
| "exec (Erase c t) s = continues (erase_thread_safely c t s)"
| "exec (Wakeup c) s = continues (wakeup_next c s)"
| "exec (Erase_suspension c t) s = Some (erase_suspension c t s)"
| "exec (On_cpu c) s = (if c < max_cores s then Some (s\<lparr>cpu_id := c\<rparr>) else None)"

fun run :: "call list \<Rightarrow> kstate \<Rightarrow> kstate option" where
  "run [] s = Some s"
| "run (c # cs) s = (case exec c s of None \<Rightarrow> None | Some s1 \<Rightarrow> run cs s1)"

text \<open>The id that the next call of \<^verbatim>\<open>thread_create\<close> takes: the counter, narrowed to \<^verbatim>\<open>int\<close>.\<close>

definition next_tid :: "kstate \<Rightarrow> int" where
  "next_tid s = sint (ucast (thread_counter s) :: 32 word)"

text \<open>The counter has the value \<open>n\<close> in the state in which the kernel goes on, if it does.\<close>

definition counter_is :: "64 word \<Rightarrow> 'a outcome \<Rightarrow> bool" where
  "counter_is n r = (case continues r of None \<Rightarrow> True | Some s' \<Rightarrow> thread_counter s' = n)"


text \<open>Suspending a list of threads in order, and waking the front of the queue \<open>n\<close> times.\<close>

fun suspend_each :: "(tptr \<times> addr \<times> addr) list \<Rightarrow> kstate \<Rightarrow> unit outcome" where
  "suspend_each [] s = Returns () s"
| "suspend_each ((t, ret_instr, ret_stack) # rest) s =
     and_then (Thread_suspend True t ret_instr ret_stack s) (\<lambda>_. suspend_each rest)"

fun wakeup_times :: "nat \<Rightarrow> nat \<Rightarrow> kstate \<Rightarrow> tptr list outcome" where
  "wakeup_times c 0 s = Returns [] s"
| "wakeup_times c (Suc n) s =
     and_then (wakeup_next c s) (\<lambda>t s1.
     and_then (wakeup_times c n s1) (\<lambda>ts s2. Returns (t # ts) s2))"

text \<open>A thread is registered with a manager when the registry maps the thread's id to it.\<close>

definition registered :: "kstate \<Rightarrow> nat \<Rightarrow> tptr \<Rightarrow> bool" where
  "registered s c p =
     (case deref s p of
        None \<Rightarrow> False
      | Some t \<Rightarrow> threads (thread_managers s c) (tid t) = Some p)"

section \<open>States reached through the interface\<close>

text \<open>The number of calls of \<^verbatim>\<open>thread_create\<close> in a sequence of calls.\<close>

fun creations :: "call list \<Rightarrow> nat" where
  "creations [] = 0"
| "creations (c # cs) =
     (case c of Create al p flags ctid stack \<Rightarrow> 1 | _ \<Rightarrow> 0) + creations cs"

text \<open>
  The ids in use in a state: the keys of the registries, the ids of the threads of the
  free store and the ids of the main threads.
\<close>

definition has_id :: "kstate \<Rightarrow> int \<Rightarrow> bool" where
  "has_id s k \<longleftrightarrow>
     (\<exists>c. threads (thread_managers s c) k \<noteq> None) \<or>
     (\<exists>a t. heap s a = Some t \<and> tid t = k) \<or>
     (\<exists>c. tid (main_thread (thread_managers s c)) = k)"

text \<open>The ids in use in \<open>s'\<close> are in use in \<open>s\<close> or among \<open>K\<close>.\<close>

definition ids_from :: "int set \<Rightarrow> kstate \<Rightarrow> kstate \<Rightarrow> bool" where
  "ids_from K s s' \<longleftrightarrow> (\<forall>k. has_id s' k \<longrightarrow> has_id s k \<or> k \<in> K)"

text \<open>
  An id is below the counter \<open>n\<close> when it is the narrowed value of a number below \<open>n\<close>:
  the id 0 of the main threads, or an id that \<^verbatim>\<open>thread_create\<close> has taken. The invariant
  of the reached states: the counter is not 0 and every id in use is below it.
\<close>

definition below_counter :: "64 word \<Rightarrow> int \<Rightarrow> bool" where
  "below_counter n k \<longleftrightarrow> (\<exists>w. w < n \<and> k = sint (ucast w :: 32 word))"

definition ids_inv :: "kstate \<Rightarrow> bool" where
  "ids_inv s \<longleftrightarrow> 0 < thread_counter s \<and> (\<forall>k. has_id s k \<longrightarrow> below_counter (thread_counter s) k)"

text \<open>The state in which the kernel goes on after a call, if it does, satisfies \<open>P\<close>.\<close>

definition ends_with :: "(kstate \<Rightarrow> bool) \<Rightarrow> 'a outcome \<Rightarrow> bool" where
  "ends_with P r = (case continues r of None \<Rightarrow> True | Some s' \<Rightarrow> P s')"

section \<open>Concrete scenes\<close>

text \<open>
  Scenes on a machine with two CPUs, reached from the start-up state by calls of the
  interface. Thread A is the first thread that CPU 0's main thread creates.
\<close>

definition alloc_at :: "nat \<Rightarrow> allocator" where
  "alloc_at a = \<lparr>new_Thread = Some a, push_back_ok = True, emplace_ok = True\<rparr>"

definition scene :: "call list \<Rightarrow> kstate" where
  "scene cs = (case run cs (boot 2) of Some s \<Rightarrow> s | None \<Rightarrow> boot 2)"

definition creates_A :: "call list" where
  "creates_A =
     [Setup_main 0x7000,
      Create (alloc_at 0) (Some (Main_thread 0)) CLONE_CHILD_SETTID 0x500 0x8000]"

text \<open>The main thread then creates B, and A creates C: C is a child of A.\<close>

definition creates_family :: "call list" where
  "creates_family =
     creates_A @
     [Create (alloc_at 1) (Some (Main_thread 0)) 0 0 0x9000,
      Create (alloc_at 2) (Some (Heap_thread 0)) CLONE_CHILD_CLEARTID 0x600 0xA000]"

definition suspends_two :: "call list" where
  "suspends_two =
     creates_family @
     [Suspend True (Heap_thread 0) 0x100 0x200,
      Suspend True (Heap_thread 1) 0x300 0x400]"

text \<open>A is activated and becomes the executing thread.\<close>

definition A_runs :: "call list" where
  "A_runs = creates_family @ [Activate (Heap_thread 0) 0x2000]"

text \<open>
  The main thread suspends; A becomes the executing thread and suspends itself without
  yielding, so that the queue holds the main thread and A while A runs.
\<close>

definition A_runs_queued :: "call list" where
  "A_runs_queued =
     creates_family @
     [Suspend True (Main_thread 0) 0x10 0x20,
      Activate (Heap_thread 0) 0x2000,
      Suspend True (Heap_thread 0) 0x100 0x200]"

definition thread_A :: Thread where
  "thread_A =
     \<lparr>self = Some (Heap_thread 0), tid = 1, yielded = False, parent = Some (Main_thread 0),
      my_tls = 0, my_stack = 0x8000, stored_stack = 0, stored_nexti = 0, clear_tid = 0,
      children = []\<rparr>"

definition running_A :: Thread where
  "running_A = thread_A\<lparr>my_tls := 0x2000, children := [Heap_thread 2]\<rparr>"

definition main_0 :: Thread where
  "main_0 =
     \<lparr>self = Some (Main_thread 0), tid = 0, yielded = False, parent = None, my_tls = 0,
      my_stack = 0x7000, stored_stack = 0, stored_nexti = 0, clear_tid = 0,
      children = [Heap_thread 0, Heap_thread 1]\<rparr>"

definition queued_A :: Thread where
  "queued_A = running_A\<lparr>stored_stack := 0x200, stored_nexti := 0x100\<rparr>"

definition queued_main :: Thread where
  "queued_main =
     main_0\<lparr>stored_stack := 0x20, stored_nexti := 0x10\<rparr>"

text \<open>A creation for which the allocator has no memory, and the state just below 2^31.\<close>

definition no_memory :: allocator where
  "no_memory = \<lparr>new_Thread = None, push_back_ok = True, emplace_ok = True\<rparr>"

definition failed_create :: call where
  "failed_create = Create no_memory (Some (Main_thread 0)) 0 0 0"



text \<open>Thread A is alive and registered, and the counter has come round to A's id.\<close>

definition wrapped_A :: kstate where
  "wrapped_A = (scene creates_A)\<lparr>thread_counter := 0x100000001\<rparr>"

section \<open>Outcomes, pointers and managers\<close>

lemma and_then_simps [simp]:
  "and_then (Returns x s) f = f x s"
  "and_then (Jumps j s) f = Jumps j s"
  "and_then (Throws e s) f = Throws e s"
  "and_then (Halts h) f = Halts h"
  by (simp_all add: and_then_def)

lemma and_then_Returns:
  "and_then r f = Returns y s' \<longleftrightarrow> (\<exists>x s1. r = Returns x s1 \<and> f x s1 = Returns y s')"
  by (cases r) simp_all

lemma and_then_continues:
  "continues (and_then r f) = Some s' \<Longrightarrow>
   (\<exists>x s1. r = Returns x s1 \<and> continues (f x s1) = Some s') \<or>
   (\<exists>j. r = Jumps j s') \<or> (\<exists>e. r = Throws e s')"
  by (cases r) (simp_all add: continues_def)

lemma plain_simps [simp]:
  "plain (Returns x s)" "plain (Halts h)" "\<not> plain (Jumps j s)" "\<not> plain (Throws e s)"
  by (simp_all add: plain_def)

lemma plain_and_then: "plain r \<Longrightarrow> (\<And>x s. plain (f x s)) \<Longrightarrow> plain (and_then r f)"
  by (cases r) simp_all

lemma plain_continues:
  "plain r \<Longrightarrow> continues (and_then r f) = Some s' \<Longrightarrow>
   \<exists>x s1. r = Returns x s1 \<and> continues (f x s1) = Some s'"
  by (cases r) (simp_all add: continues_def)

lemma upd_manager_fields [simp]:
  "thread_counter (upd_manager c f s) = thread_counter s"
  "max_cores (upd_manager c f s) = max_cores s"
  "cpu_id (upd_manager c f s) = cpu_id s"
  "heap (upd_manager c f s) = heap s"
  "fs_base (upd_manager c f s) = fs_base s"
  "kthread (upd_manager c f s) = kthread s"
  "user_mem (upd_manager c f s) = user_mem s"
  "thread_managers (upd_manager c f s) d = (if d = c then f (thread_managers s c) else thread_managers s d)"
  by (simp_all add: upd_manager_def)

lemma store_fields [simp]:
  "thread_counter (store p t s) = thread_counter s"
  "max_cores (store p t s) = max_cores s"
  "cpu_id (store p t s) = cpu_id s"
  "fs_base (store p t s) = fs_base s"
  "kthread (store p t s) = kthread s"
  "user_mem (store p t s) = user_mem s"
  "threads (thread_managers (store p t s) d) = threads (thread_managers s d)"
  "suspended (thread_managers (store p t s) d) = suspended (thread_managers s d)"
  by (cases p; simp)+

lemma deref_store:
  "deref s p \<noteq> None \<Longrightarrow> deref (store p t s) q = (if q = p then Some t else deref s q)"
  by (cases p; cases q; auto split: if_splits)

lemma deref_upd_manager_registry [simp]:
  "main_thread (f (thread_managers s c)) = main_thread (thread_managers s c) \<Longrightarrow>
   deref (upd_manager c f s) q = deref s q"
  by (cases q) auto

lemma deref_other_fields [simp]:
  "deref (s\<lparr>user_mem := m\<rparr>) q = deref s q"
  "deref (s\<lparr>thread_counter := n\<rparr>) q = deref s q"
  "deref (s\<lparr>cpu_id := c\<rparr>) q = deref s q"
  "deref (s\<lparr>fs_base := b\<rparr>) q = deref s q"
  "deref (s\<lparr>kthread := k\<rparr>) q = deref s q"
  by (cases q; simp)+

lemma deref_heap_update:
  "deref (s\<lparr>heap := h\<rparr>) q = (case q of Heap_thread a \<Rightarrow> h a | Main_thread c \<Rightarrow> deref s q)"
  by (cases q) simp_all

declare deref.simps [simp del] store.simps [simp del]

lemma deref_delete:
  "deref (s\<lparr>heap := (heap s)(a := None)\<rparr>) q = (if q = Heap_thread a then None else deref s q)"
  by (cases q) (auto simp: deref.simps)

lemma deref_set_thread_area [simp]: "deref (set_thread_area a s) q = deref s q"
  by (simp add: set_thread_area_def)

lemma deref_erase_suspension [simp]: "deref (erase_suspension c p s) q = deref s q"
  by (simp add: erase_suspension_def)

lemma modify_Returns:
  "modify p f s = Returns u s' \<longleftrightarrow> (\<exists>t. deref s p = Some t \<and> s' = store p (f t) s)"
  by (auto simp: modify_def split: option.splits)

lemma modify_deref:
  assumes "modify q f s = Returns u s'"
  shows "deref s' r = (if r = q then map_option f (deref s q) else deref s r)"
  using assms by (auto simp: modify_Returns deref_store)

lemma modify_frame:
  assumes "modify q f s = Returns u s'"
  shows "thread_counter s' = thread_counter s" "cpu_id s' = cpu_id s"
    "max_cores s' = max_cores s" "user_mem s' = user_mem s"
    "fs_base s' = fs_base s" "kthread s' = kthread s"
    "threads (thread_managers s' c) = threads (thread_managers s c)"
    "suspended (thread_managers s' c) = suspended (thread_managers s c)"
  using assms by (auto simp: modify_Returns)

lemma plain_modify [simp]: "plain (modify p f s)"
  by (simp add: modify_def split: option.splits)


section \<open>The concrete scenes, evaluated\<close>

lemmas eval_defs = deref.simps store.simps alloc_at_def scene_def creates_A_def creates_family_def
  suspends_two_def A_runs_def A_runs_queued_def Thread_exit_def release_and_resume_def
  remove_from_parent_def clear_child_tid_def erase_thread_safely_def delete_Thread_def
  erase_suspension_def Thread_resume_def get_thread_self_def read_pid_t_def pid_t_bytes_def boot_def continues_def
  thread_create_def thread_create_try_def
  generate_new_thread_id_def and_then_def modify_def Thread_init_def push_child_def write_child_tid_def
  record_clear_tid_def insert_thread_def upd_manager_def ThreadManager_get_def fresh_Thread_def
  setup_main_thread_def Thread_activate_def libc_store_this_def set_thread_area_def get_thread_area_def
  CLONE_CHILD_SETTID_def CLONE_CHILD_CLEARTID_def Let_def Thread_suspend_def store_return_def
  ThreadManager_suspend_def

lemma scene_creates_A:
  "cpu_id (scene creates_A) = 0"
  "max_cores (scene creates_A) = 2"
  "thread_counter (scene creates_A) = 2"
  "heap (scene creates_A) 0 = Some thread_A"
  "threads (thread_managers (scene creates_A) 0) 1 = Some (Heap_thread 0)"
  "threads (thread_managers (scene creates_A) (Suc 0)) 1 = None"
  "read_pid_t (user_mem (scene creates_A)) 0x500 = 1"
  by (simp_all add: eval_defs thread_A_def)

lemma scene_A_runs:
  "cpu_id (scene A_runs) = 0"
  "deref (scene A_runs) (Heap_thread 0) = Some running_A"
  "deref (scene A_runs) (Main_thread 0) = Some main_0"
  "get_thread_self (scene A_runs) = Some (Heap_thread 0)"
  "continues (Thread_exit (Heap_thread 0) (scene A_runs)) = Some (scene (A_runs @ [Exit (Heap_thread 0)]))"
  by (simp_all add: eval_defs running_A_def thread_A_def main_0_def)

lemma scene_A_runs_queued:
  "cpu_id (scene A_runs_queued) = 0"
  "deref (scene A_runs_queued) (Heap_thread 0) = Some queued_A"
  "deref (scene A_runs_queued) (Main_thread 0) = Some queued_main"
  "get_thread_self (scene A_runs_queued) = Some (Heap_thread 0)"
  "suspended (thread_managers (scene A_runs_queued) 0) = [Main_thread 0, Heap_thread 0]"
  "continues (Thread_exit (Heap_thread 0) (scene A_runs_queued)) =
     Some (scene (A_runs_queued @ [Exit (Heap_thread 0)]))"
  by (simp_all add: eval_defs queued_A_def queued_main_def running_A_def thread_A_def main_0_def)


section \<open>The registry\<close>

lemma insert_thread_Returns:
  assumes "insert_thread ok c th s = Returns u s'"
  shows "\<exists>t. deref s th = Some t \<and>
           s' = upd_manager c
                  (\<lambda>m. case threads m (tid t) of
                          None \<Rightarrow> m\<lparr>threads := (threads m)(tid t \<mapsto> th)\<rparr>
                        | Some _ \<Rightarrow> m) s"
  using assms by (auto simp: insert_thread_def split: option.splits if_splits)

text \<open>
  Claim C3, as amended. \<^verbatim>\<open>insert_thread\<close> of a thread whose id is already a key of the
  registry does not stop the kernel: \<^verbatim>\<open>emplace\<close> keeps the existing entry, the call
  returns and the state is the one before the call; only a failed allocation makes the
  call fail, with an exception.
\<close>

theorem insert_thread_existing_id:
  assumes "deref s thread = Some t" and "threads (thread_managers s c) (tid t) = Some q"
  shows "insert_thread ok c thread s = (if ok then Returns () s else Throws Bad_alloc s)"
  using assms by (simp add: insert_thread_def upd_manager_def)

text \<open>Thread A, registered by its creation, is inserted once more.\<close>

theorem insert_thread_existing_id_witness:
  "insert_thread True 0 (Heap_thread 0) (scene creates_A) = Returns () (scene creates_A)"
  using insert_thread_existing_id [of "scene creates_A" "Heap_thread 0"
      "case heap (scene creates_A) 0 of Some t \<Rightarrow> t | None \<Rightarrow> fresh_Thread" 0 "Heap_thread 0" True]
  by (simp add: eval_defs)

text \<open>
  Claim C3 as stated fails: thread A's id 1 is a key of CPU 0's registry, and inserting A
  does not stop the kernel; the registry still maps 1 to A.
\<close>

theorem insert_thread_duplicate_counterexample:
  "map_option tid (deref (scene creates_A) (Heap_thread 0)) = Some 1 \<and>
   threads (thread_managers (scene creates_A) 0) 1 = Some (Heap_thread 0) \<and>
   map_option (\<lambda>s. threads (thread_managers s 0) 1)
     (continues (insert_thread True 0 (Heap_thread 0) (scene creates_A))) =
   Some (Some (Heap_thread 0))"
  by (simp add: eval_defs)



lemma erase_thread_safely_registered:
  assumes "deref s p = Some t" and "threads (thread_managers s c) (tid t) = Some p"
  shows "erase_thread_safely c (Some p) s =
           Returns () (upd_manager c (\<lambda>m. m\<lparr>threads := (threads m)(tid t := None)\<rparr>) s)"
  using assms by (simp add: erase_thread_safely_def)

lemma erase_thread_safely_Returns:
  assumes "erase_thread_safely c (Some p) s = Returns u s'"
  shows "\<exists>t. deref s p = Some t \<and> threads (thread_managers s c) (tid t) = Some p \<and>
           s' = upd_manager c (\<lambda>m. m\<lparr>threads := (threads m)(tid t := None)\<rparr>) s"
  using assms by (auto simp: erase_thread_safely_def split: option.splits if_splits)

lemma plain_erase_thread_safely [simp]: "plain (erase_thread_safely c th s)"
  by (simp add: erase_thread_safely_def split: option.splits)

text \<open>
  Claim C6. A thread is registered under its id with manager \<open>a\<close>, the manager of the
  executing CPU, and \<open>b\<close> is another CPU. Then \<^verbatim>\<open>migrate\<close> to \<open>b\<close> (with the allocation of
  the registry node succeeding) returns, the id is absent from the registry of \<open>a\<close> and
  present in the registry of \<open>b\<close>, where it maps to the thread unless \<open>b\<close> had the key
  before; every Thread object, hence every field of the migrated thread, is unchanged,
  and so is every suspended queue.
\<close>

theorem migrate_moves_registration:
  assumes reg: "threads (thread_managers s a) (tid t) = Some p"
    and obj: "deref s p = Some t"
    and caller: "cpu_id s = a"
    and range: "0 \<le> b" "nat b < max_cores s"
    and other: "nat b \<noteq> a"
  shows "\<exists>s'. migrate True a (tid t) b s = Returns () s' \<and>
           threads (thread_managers s' a) (tid t) = None \<and>
           threads (thread_managers s' (nat b)) (tid t) \<noteq> None \<and>
           (threads (thread_managers s (nat b)) (tid t) = None \<longrightarrow>
              threads (thread_managers s' (nat b)) (tid t) = Some p) \<and>
           (\<forall>q. deref s' q = deref s q) \<and>
           (\<forall>c. suspended (thread_managers s' c) = suspended (thread_managers s c))"
proof -
  let ?s1 = "upd_manager a (\<lambda>m. m\<lparr>threads := (threads m)(tid t := None)\<rparr>) s"
  let ?s2 = "upd_manager (nat b)
         (\<lambda>m. case threads m (tid t) of
                 None \<Rightarrow> m\<lparr>threads := (threads m)(tid t \<mapsto> p)\<rparr>
               | Some _ \<Rightarrow> m) ?s1"
  have look: "get_thread (tid t) s = Some p"
    using reg caller by (simp add: get_thread_def ThreadManager_get_def)
  have er: "erase_thread_safely a (Some p) s = Returns () ?s1"
    using erase_thread_safely_registered [OF obj reg] .
  have tgt: "ThreadManager_get_cpu b ?s1 = Some (nat b)"
    using range by (simp add: ThreadManager_get_cpu_def)
  have obj1: "deref ?s1 p = Some t"
    using obj by simp
  have ins: "insert_thread True (nat b) p ?s1 = Returns () ?s2"
    using obj1 by (simp add: insert_thread_def)
  have res: "migrate True a (tid t) b s = Returns () ?s2"
    by (simp add: migrate_def look er tgt ins)
  have frame: "\<And>q. deref ?s2 q = deref s q"
    by (subst deref_upd_manager_registry) (auto split: option.splits)
  show ?thesis
    using other res frame by (auto split: option.splits)
qed

text \<open>Thread A migrates from CPU 0 to CPU 1.\<close>

theorem migrate_moves_registration_witness:
  "\<exists>s'. migrate True 0 (tid thread_A) 1 (scene creates_A) = Returns () s' \<and>
     threads (thread_managers s' 0) (tid thread_A) = None \<and>
     threads (thread_managers s' (nat 1)) (tid thread_A) = Some (Heap_thread 0) \<and>
     deref s' (Heap_thread 0) = Some thread_A"
proof -
  have t: "deref (scene creates_A) (Heap_thread 0) = Some thread_A"
    by (simp add: scene_creates_A deref.simps)
  have r: "threads (thread_managers (scene creates_A) 0) (tid thread_A) = Some (Heap_thread 0)"
    by (simp add: scene_creates_A thread_A_def)
  have e: "threads (thread_managers (scene creates_A) (nat 1)) (tid thread_A) = None"
    by (simp add: scene_creates_A thread_A_def)
  have m: "nat 1 < max_cores (scene creates_A)" "nat 1 \<noteq> (0::nat)" "(0::int) \<le> 1"
    by (simp_all add: scene_creates_A)
  from migrate_moves_registration [OF r t scene_creates_A(1) m(3) m(1) m(2)]
  obtain s' where s': "migrate True 0 (tid thread_A) 1 (scene creates_A) = Returns () s'"
      "threads (thread_managers s' 0) (tid thread_A) = None"
      "threads (thread_managers (scene creates_A) (nat 1)) (tid thread_A) = None \<longrightarrow>
         threads (thread_managers s' (nat 1)) (tid thread_A) = Some (Heap_thread 0)"
      "\<forall>q. deref s' q = deref (scene creates_A) q"
    by (elim exE conjE) simp
  from s'(4) t have "deref s' (Heap_thread 0) = Some thread_A"
    by metis
  with s'(1,2,3) e show ?thesis
    by blast
qed


section \<open>The suspended queue\<close>

text \<open>
  Claim C7. \<^verbatim>\<open>wakeup_next\<close> on a manager whose suspended queue is empty stops the kernel
  with a failed assertion; on a non-empty queue it returns the front element, and the
  queue that is left is the rest.
\<close>

theorem wakeup_next_contract:
  "(suspended (thread_managers s c) = [] \<longrightarrow> wakeup_next c s = Halts Assert_failed) \<and>
   (\<forall>t ts. suspended (thread_managers s c) = t # ts \<longrightarrow>
      wakeup_next c s = Returns t (upd_manager c (\<lambda>m. m\<lparr>suspended := ts\<rparr>) s) \<and>
      suspended (thread_managers (upd_manager c (\<lambda>m. m\<lparr>suspended := ts\<rparr>) s) c) = ts)"
  by (simp add: wakeup_next_def)

text \<open>The contract at the start-up state and at a queue of two threads.\<close>

theorem wakeup_next_contract_witness:
  "wakeup_next 0 (boot 2) = Halts Assert_failed \<and>
   wakeup_next 0 (scene suspends_two) =
     Returns (Heap_thread 0)
       (upd_manager 0 (\<lambda>m. m\<lparr>suspended := [Heap_thread 1]\<rparr>) (scene suspends_two))"
  using wakeup_next_contract [of "boot 2" 0]
    wakeup_next_contract [of "scene suspends_two" 0]
  by (simp add: eval_defs)

lemma store_return_live:
  "deref s this = Some t \<Longrightarrow>
   store_return this ni st s = Returns () (store this (t\<lparr>stored_nexti := ni, stored_stack := st\<rparr>) s)"
  by (simp add: store_return_def modify_def)

lemma Thread_suspend_ok:
  assumes "deref s this = Some t"
  shows "Thread_suspend True this ni st s =
           Returns () (upd_manager (cpu_id s) (\<lambda>m. m\<lparr>suspended := suspended m @ [this]\<rparr>)
                         (store this (t\<lparr>stored_nexti := ni, stored_stack := st\<rparr>) s))"
  using assms
  by (simp add: Thread_suspend_def store_return_live ThreadManager_suspend_def ThreadManager_get_def)

lemma suspend_each_appends:
  "\<forall>x \<in> set xs. deref s (fst x) \<noteq> None \<Longrightarrow>
   \<exists>s1. suspend_each xs s = Returns () s1 \<and> cpu_id s1 = cpu_id s \<and>
        suspended (thread_managers s1 (cpu_id s)) =
          suspended (thread_managers s (cpu_id s)) @ map fst xs"
proof (induction xs arbitrary: s)
  case Nil
  then show ?case by simp
next
  case (Cons x xs)
  obtain this ni st where x: "x = (this, ni, st)"
    by (cases x) auto
  from Cons.prems obtain t where t: "deref s this = Some t"
    by (auto simp: x)
  let ?s = "upd_manager (cpu_id s) (\<lambda>m. m\<lparr>suspended := suspended m @ [this]\<rparr>)
              (store this (t\<lparr>stored_nexti := ni, stored_stack := st\<rparr>) s)"
  have live: "\<forall>y \<in> set xs. deref ?s (fst y) \<noteq> None"
    using Cons.prems t by (auto simp: deref_store)
  from Cons.IH [OF live] obtain s1 where
    "suspend_each xs ?s = Returns () s1" "cpu_id s1 = cpu_id ?s"
    "suspended (thread_managers s1 (cpu_id ?s)) = suspended (thread_managers ?s (cpu_id ?s)) @ map fst xs"
    by blast
  then show ?case
    by (simp add: x Thread_suspend_ok [OF t])
qed

lemma wakeup_times_prefix:
  "suspended (thread_managers s c) = q @ r \<Longrightarrow>
   \<exists>s'. wakeup_times c (length q) s = Returns q s' \<and> suspended (thread_managers s' c) = r"
proof (induction q arbitrary: s)
  case Nil
  then show ?case by simp
next
  case (Cons t q)
  let ?s = "upd_manager c (\<lambda>m. m\<lparr>suspended := q @ r\<rparr>) s"
  have w: "wakeup_next c s = Returns t ?s"
    using Cons.prems by (simp add: wakeup_next_def)
  have "suspended (thread_managers ?s c) = q @ r"
    by simp
  from Cons.IH [OF this] obtain s' where
    "wakeup_times c (length q) ?s = Returns q s'" "suspended (thread_managers s' c) = r"
    by blast
  then show ?case
    by (simp add: w)
qed

text \<open>
  Claim C5. On one manager, threads suspended in the order \<open>xs\<close> (every enqueue succeeding,
  no wake-up in between) leave the queue in exactly that order, behind the threads that
  were queued before: successive calls of \<^verbatim>\<open>wakeup_next\<close> return first the earlier entries
  and then the threads of \<open>xs\<close>, first suspended first, and the queue is empty at the end.
  With T1, T2, T3 suspended on an empty queue the calls return T1, T2, T3.
\<close>

theorem suspended_queue_fifo:
  assumes live: "\<forall>x \<in> set xs. deref s (fst x) \<noteq> None"
  shows "\<exists>s1 s2. suspend_each xs s = Returns () s1 \<and>
           wakeup_times (cpu_id s)
             (length (suspended (thread_managers s (cpu_id s))) + length xs) s1 =
             Returns (suspended (thread_managers s (cpu_id s)) @ map fst xs) s2 \<and>
           suspended (thread_managers s2 (cpu_id s)) = []"
proof -
  let ?q = "suspended (thread_managers s (cpu_id s)) @ map fst xs"
  from suspend_each_appends [OF live] obtain s1 where
    s1: "suspend_each xs s = Returns () s1"
    and q: "suspended (thread_managers s1 (cpu_id s)) = ?q @ []"
    by auto
  from wakeup_times_prefix [OF q] obtain s2 where
    "wakeup_times (cpu_id s) (length ?q) s1 = Returns ?q s2"
    "suspended (thread_managers s2 (cpu_id s)) = []"
    by blast
  with s1 show ?thesis
    by auto
qed

text \<open>A, B and C are suspended in this order on CPU 0, whose queue was empty.\<close>

theorem suspended_queue_fifo_witness:
  "suspended (thread_managers (scene creates_family) (cpu_id (scene creates_family))) = [] \<and>
   map fst [(Heap_thread 0, 0x100 :: addr, 0x200 :: addr), (Heap_thread 1, 0x300, 0x400),
            (Heap_thread 2, 0x500, 0x600)] = [Heap_thread 0, Heap_thread 1, Heap_thread 2] \<and>
   (\<exists>s1 s2.
      suspend_each [(Heap_thread 0, 0x100, 0x200), (Heap_thread 1, 0x300, 0x400),
                    (Heap_thread 2, 0x500, 0x600)] (scene creates_family) = Returns () s1 \<and>
      wakeup_times (cpu_id (scene creates_family))
        (length (suspended (thread_managers (scene creates_family) (cpu_id (scene creates_family)))) +
         length [(Heap_thread 0, 0x100 :: addr, 0x200 :: addr), (Heap_thread 1, 0x300, 0x400),
                 (Heap_thread 2, 0x500, 0x600)]) s1 =
        Returns (suspended (thread_managers (scene creates_family) (cpu_id (scene creates_family))) @
                 map fst [(Heap_thread 0, 0x100 :: addr, 0x200 :: addr), (Heap_thread 1, 0x300, 0x400),
                          (Heap_thread 2, 0x500, 0x600)]) s2 \<and>
      suspended (thread_managers s2 (cpu_id (scene creates_family))) = [])"
proof -
  let ?xs = "[(Heap_thread 0, 0x100, 0x200), (Heap_thread 1, 0x300, 0x400),
              (Heap_thread 2, 0x500, 0x600)] :: (tptr \<times> addr \<times> addr) list"
  have live: "\<forall>x \<in> set ?xs. deref (scene creates_family) (fst x) \<noteq> None"
    by (simp add: eval_defs)
  have empty: "suspended (thread_managers (scene creates_family) (cpu_id (scene creates_family))) = []"
    by (simp add: eval_defs)
  have names: "map fst ?xs = [Heap_thread 0, Heap_thread 1, Heap_thread 2]"
    by simp
  from empty names suspended_queue_fifo [OF live] show ?thesis
    by (intro conjI)
qed

text \<open>
  Claim C4, as amended. When the enqueue of \<^verbatim>\<open>Thread::suspend\<close> fails, the exception
  reaches the caller; every registry and every suspended queue is as before, so the
  thread stays registered; every other Thread object is unchanged; but the thread's stored
  continuation has already been replaced by the new return point, its other fields being
  unchanged.
\<close>

theorem suspend_failure_overwrites_continuation:
  assumes "deref s this = Some t"
  shows "\<exists>s'. Thread_suspend False this ni st s = Throws Bad_alloc s' \<and>
           deref s' this = Some (t\<lparr>stored_nexti := ni, stored_stack := st\<rparr>) \<and>
           (\<forall>q. q \<noteq> this \<longrightarrow> deref s' q = deref s q) \<and>
           (\<forall>c. threads (thread_managers s' c) = threads (thread_managers s c) \<and>
                suspended (thread_managers s' c) = suspended (thread_managers s c))"
  using assms
  by (simp add: Thread_suspend_def store_return_live ThreadManager_suspend_def deref_store)

text \<open>A failing suspension of thread A.\<close>

theorem suspend_failure_overwrites_continuation_witness:
  "\<exists>s'. Thread_suspend False (Heap_thread 0) 0x300 0x400 (scene creates_A) = Throws Bad_alloc s' \<and>
     deref s' (Heap_thread 0) = Some (thread_A\<lparr>stored_nexti := 0x300, stored_stack := 0x400\<rparr>) \<and>
     (\<forall>q. q \<noteq> Heap_thread 0 \<longrightarrow> deref s' q = deref (scene creates_A) q) \<and>
     (\<forall>c. threads (thread_managers s' c) = threads (thread_managers (scene creates_A) c) \<and>
          suspended (thread_managers s' c) = suspended (thread_managers (scene creates_A) c))"
proof -
  have t: "deref (scene creates_A) (Heap_thread 0) = Some thread_A"
    by (simp add: scene_creates_A deref.simps)
  show ?thesis
    by (rule suspend_failure_overwrites_continuation [OF t])
qed

text \<open>
  Claim C4 as stated fails: A was suspended with the return point \<open>0x100\<close>; a second
  suspension whose enqueue fails throws, and A's stored return point is then \<open>0x300\<close>.
\<close>

theorem suspend_failure_counterexample:
  "map_option stored_nexti
     (deref (scene (creates_A @ [Suspend True (Heap_thread 0) 0x100 0x200])) (Heap_thread 0)) =
     Some 0x100 \<and>
   (case Thread_suspend False (Heap_thread 0) 0x300 0x400
           (scene (creates_A @ [Suspend True (Heap_thread 0) 0x100 0x200])) of
      Throws e s' \<Rightarrow> map_option stored_nexti (deref s' (Heap_thread 0)) = Some 0x300
    | _ \<Rightarrow> False)"
  by (simp add: eval_defs)


section \<open>Thread creation\<close>

lemma push_child_Returns:
  assumes "push_child ok th s = Returns u s'"
  shows "\<exists>t p pt. deref s th = Some t \<and> parent t = Some p \<and> deref s p = Some pt \<and>
           s' = store p (pt\<lparr>children := children pt @ [th]\<rparr>) s"
  using assms by (auto simp: push_child_def split: option.splits if_splits)

lemma bytes_join:
  "ucast (ucast v :: 8 word) OR push_bit 8 (ucast (ucast (drop_bit 8 v) :: 8 word)) OR
   push_bit 16 (ucast (ucast (drop_bit 16 v) :: 8 word)) OR
   push_bit 24 (ucast (ucast (drop_bit 24 v) :: 8 word)) = (v :: 32 word)"
proof (rule bit_word_eqI)
  fix n
  assume "n < LENGTH(32)"
  then have n: "n < 32"
    by simp
  consider "n < 8" | "8 \<le> n" "n < 16" | "16 \<le> n" "n < 24" | "24 \<le> n"
    by linarith
  then show "bit (ucast (ucast v :: 8 word) OR push_bit 8 (ucast (ucast (drop_bit 8 v) :: 8 word)) OR
       push_bit 16 (ucast (ucast (drop_bit 16 v) :: 8 word)) OR
       push_bit 24 (ucast (ucast (drop_bit 24 v) :: 8 word)) :: 32 word) n = bit v n"
    using n by cases (auto simp: bit_simps)
qed

lemma read_pid_t_store: "read_pid_t (store_bytes a (pid_t_bytes v) m) a = v"
  by (simp add: read_pid_t_def pid_t_bytes_def bytes_join)

lemma write_child_tid_Returns:
  assumes "write_child_tid th flags ctid s = Returns u s'"
  shows "(\<exists>t. flags AND CLONE_CHILD_SETTID \<noteq> 0 \<and> deref s th = Some t \<and> ctid \<noteq> 0 \<and>
              s' = s\<lparr>user_mem := store_bytes ctid (pid_t_bytes (word_of_int (tid t))) (user_mem s)\<rparr>) \<or>
         (flags AND CLONE_CHILD_SETTID = 0 \<and> s' = s)"
  using assms by (auto simp: write_child_tid_def split: option.splits if_splits)

lemma record_clear_tid_Returns:
  assumes "record_clear_tid th flags ctid s = Returns u s'"
  shows "deref s' q = (if q = th \<and> flags AND CLONE_CHILD_CLEARTID \<noteq> 0
                       then map_option (\<lambda>t. t\<lparr>clear_tid := ctid\<rparr>) (deref s q) else deref s q)"
    "user_mem s' = user_mem s" "cpu_id s' = cpu_id s" "thread_counter s' = thread_counter s"
    "threads (thread_managers s' c) = threads (thread_managers s c)"
  using assms
  by (auto simp: record_clear_tid_def modify_Returns deref_store split: if_splits)

text \<open>What is known when the \<^verbatim>\<open>try\<close> block of \<^verbatim>\<open>thread_create\<close> has come to \<^verbatim>\<open>insert_thread\<close>.\<close>

lemma thread_create_try_Returns:
  assumes run: "thread_create_try al i par flags ctid stack s = Returns th s'"
  shows "\<exists>a p s6 t6 pt.
      new_Thread al = Some a \<and> th = Heap_thread a \<and> par = Some p \<and>
      deref s6 th = Some t6 \<and> tid t6 = sint i \<and> parent t6 = Some p \<and>
      deref s6 p = Some pt \<and> th \<in> set (children pt) \<and>
      (flags AND CLONE_CHILD_SETTID \<noteq> 0 \<longrightarrow> ctid \<noteq> 0 \<and> read_pid_t (user_mem s6) ctid = i) \<and>
      (\<forall>c. threads (thread_managers s6 c) = threads (thread_managers s c)) \<and>
      cpu_id s6 = cpu_id s \<and> thread_counter s6 = thread_counter s \<and>
      insert_thread (emplace_ok al) (cpu_id s) th s6 = Returns () s'"
proof -
  from run obtain a where a: "new_Thread al = Some a"
    by (auto simp: thread_create_try_def split: option.splits)
  let ?th = "Heap_thread a"
  let ?s0 = "s\<lparr>heap := (heap s)(a \<mapsto> fresh_Thread)\<rparr>"
  from run a obtain s1 s2 s3 s4 s5 s6 where
    1: "Thread_init ?th i ?s0 = Returns () s1" and
    2: "modify ?th (\<lambda>t. t\<lparr>parent := par\<rparr>) s1 = Returns () s2" and
    3: "push_child (push_back_ok al) ?th s2 = Returns () s3" and
    4: "modify ?th (\<lambda>t. t\<lparr>my_stack := stack\<rparr>) s3 = Returns () s4" and
    5: "write_child_tid ?th flags ctid s4 = Returns () s5" and
    6: "record_clear_tid ?th flags ctid s5 = Returns () s6" and
    7: "insert_thread (emplace_ok al) (ThreadManager_get s6) ?th s6 = Returns () s'" and
    th: "th = ?th"
    by (auto simp: thread_create_try_def Let_def and_then_Returns)
  have d1: "deref s1 ?th = Some (fresh_Thread\<lparr>self := Some ?th, tid := sint i\<rparr>)"
    using 1 by (auto simp: Thread_init_def modify_Returns deref_store deref_heap_update)
  have d2: "deref s2 ?th = Some (fresh_Thread\<lparr>self := Some ?th, tid := sint i, parent := par\<rparr>)"
    using modify_deref [OF 2, of ?th] d1 by simp
  from push_child_Returns [OF 3] d2 obtain p pt where
    p: "par = Some p" and pt: "deref s2 p = Some pt" and
    s3: "s3 = store p (pt\<lparr>children := children pt @ [?th]\<rparr>) s2"
    by auto
  have d3p: "deref s3 p = Some (pt\<lparr>children := children pt @ [?th]\<rparr>)"
    using pt by (simp add: s3 deref_store)
  obtain t3 where d3: "deref s3 ?th = Some t3" "tid t3 = sint i" "parent t3 = Some p"
    using pt d2 p by (cases "?th = p") (auto simp: s3 deref_store)
  obtain t4 where d4: "deref s4 ?th = Some t4" "tid t4 = sint i" "parent t4 = Some p"
    using modify_deref [OF 4, of ?th] d3 by auto
  obtain pt4 where d4p: "deref s4 p = Some pt4" "?th \<in> set (children pt4)"
    using modify_deref [OF 4, of p] d3p d3 by (cases "p = ?th") auto
  have f4: "cpu_id s4 = cpu_id s" "thread_counter s4 = thread_counter s"
    "\<And>c. threads (thread_managers s4 c) = threads (thread_managers s c)"
    using modify_frame [OF 4] modify_frame [OF 2] 1
    by (auto simp: s3 Thread_init_def modify_Returns)
  have d5: "deref s5 = deref s4" "cpu_id s5 = cpu_id s4" "thread_counter s5 = thread_counter s4"
    "\<And>c. threads (thread_managers s5 c) = threads (thread_managers s4 c)"
    "flags AND CLONE_CHILD_SETTID \<noteq> 0 \<longrightarrow> ctid \<noteq> 0 \<and> read_pid_t (user_mem s5) ctid = i"
    using write_child_tid_Returns [OF 5] d4 by (auto simp: fun_eq_iff read_pid_t_store)
  note r6 = record_clear_tid_Returns [OF 6]
  have "\<exists>t6. deref s6 ?th = Some t6 \<and> tid t6 = sint i \<and> parent t6 = Some p"
    using r6(1) [of ?th] d5(1) d4 by auto
  then obtain t6 where d6: "deref s6 ?th = Some t6" "tid t6 = sint i" "parent t6 = Some p"
    by blast
  have "\<exists>pt6. deref s6 p = Some pt6 \<and> ?th \<in> set (children pt6)"
    using r6(1) [of p] d5(1) d4p by auto
  then obtain pt6 where d6p: "deref s6 p = Some pt6" "?th \<in> set (children pt6)"
    by blast
  have f6: "cpu_id s6 = cpu_id s" "thread_counter s6 = thread_counter s"
    "\<And>c. threads (thread_managers s6 c) = threads (thread_managers s c)"
    "flags AND CLONE_CHILD_SETTID \<noteq> 0 \<longrightarrow> ctid \<noteq> 0 \<and> read_pid_t (user_mem s6) ctid = i"
    using r6(2-5) d5 f4 by auto
  show ?thesis
    using a th p d6 d6p f6 7 by (auto simp: ThreadManager_get_def)
qed

lemma next_tid_counter_update [simp]:
  "next_tid (s\<lparr>thread_counter := n\<rparr>) = sint (ucast n :: 32 word)"
  by (simp add: next_tid_def)

text \<open>
  A call of \<^verbatim>\<open>thread_create\<close> that returns a thread, in a state in which the id it
  takes is a key of no registry: the thread carries that id, it is registered with the
  executing CPU's manager and with no other, it is in the children of the parent given to
  the call, and with \<^verbatim>\<open>CLONE_CHILD_SETTID\<close> set \<open>ctid\<close> is not null and the \<^verbatim>\<open>pid_t\<close> at
  \<open>ctid\<close> is its id.
\<close>

lemma thread_create_fresh_id:
  assumes run: "thread_create al par flags ctid stack s = Returns (Some th) s'"
    and fresh_id: "\<And>c. threads (thread_managers s c) (next_tid s) = None"
  shows "\<exists>t p pt. deref s' th = Some t \<and> tid t = next_tid s \<and>
           (\<forall>c. registered s' c th \<longleftrightarrow> c = cpu_id s) \<and>
           par = Some p \<and> deref s' p = Some pt \<and> th \<in> set (children pt) \<and>
           (flags AND CLONE_CHILD_SETTID \<noteq> 0 \<longrightarrow>
              ctid \<noteq> 0 \<and> sint (read_pid_t (user_mem s') ctid) = tid t)"
proof -
  let ?s0 = "s\<lparr>thread_counter := thread_counter s + 1\<rparr>"
  let ?i = "ucast (thread_counter s) :: 32 word"
  from run have body: "thread_create_try al ?i par flags ctid stack ?s0 = Returns th s'"
    by (auto simp: thread_create_def generate_new_thread_id_def split: outcome.splits)
  from thread_create_try_Returns [OF body] obtain p s6 t6 pt where
    p: "par = Some p" and
    t6: "deref s6 th = Some t6" "tid t6 = sint ?i" and
    pt: "deref s6 p = Some pt" "th \<in> set (children pt)" and
    mem: "flags AND CLONE_CHILD_SETTID \<noteq> 0 \<longrightarrow> ctid \<noteq> 0 \<and> read_pid_t (user_mem s6) ctid = ?i" and
    reg: "\<And>c. threads (thread_managers s6 c) = threads (thread_managers s c)" and
    cpu: "cpu_id s6 = cpu_id s" and
    ins: "insert_thread (emplace_ok al) (cpu_id s) th s6 = Returns () s'"
    by auto
  have key: "tid t6 = next_tid s"
    by (simp add: t6 next_tid_def)
  let ?f = "\<lambda>m. case threads m (tid t6) of
                   None \<Rightarrow> m\<lparr>threads := (threads m)(tid t6 \<mapsto> th)\<rparr>
                 | Some _ \<Rightarrow> m"
  from insert_thread_Returns [OF ins] t6(1) have s': "s' = upd_manager (cpu_id s) ?f s6"
    by auto
  have objs: "\<And>q. deref s' q = deref s6 q"
    unfolding s' by (rule deref_upd_manager_registry) (simp split: option.splits)
  have here: "threads (thread_managers s' (cpu_id s)) (tid t6) = Some th"
    using fresh_id [of "cpu_id s"] by (simp add: s' reg key)
  have there: "\<And>c. c \<noteq> cpu_id s \<Longrightarrow> threads (thread_managers s' c) (tid t6) \<noteq> Some th"
    using fresh_id by (simp add: s' reg key)
  have "\<And>c. registered s' c th \<longleftrightarrow> c = cpu_id s"
    using here there by (auto simp: registered_def objs t6)
  moreover have "user_mem s' = user_mem s6"
    by (simp add: s')
  ultimately show ?thesis
    using p t6 pt mem key by (auto simp: objs)
qed


section \<open>Exit\<close>

lemma erase_each_filter: "erase_each t xs = filter (\<lambda>x. x \<noteq> t) xs"
  by (induction xs) auto

lemma set_erase_first: "set (erase_first t xs) \<subseteq> set xs"
  by (induction xs) auto

lemma set_erase_each: "set (erase_each t xs) = set xs - {t}"
  by (auto simp: erase_each_filter)

text \<open>The loop that detaches the children: what it leaves behind when it completes.\<close>

lemma detach_children_Returns:
  "detach_children cs s = Returns u s1 \<Longrightarrow>
   (\<forall>q. deref s1 q =
        (if q \<in> set cs
         then map_option (\<lambda>t. t\<lparr>parent := Some (Main_thread (cpu_id s))\<rparr>) (deref s q)
         else deref s q)) \<and>
   (\<forall>q \<in> set cs. deref s q \<noteq> None) \<and>
   thread_counter s1 = thread_counter s \<and> cpu_id s1 = cpu_id s \<and>
   max_cores s1 = max_cores s \<and> user_mem s1 = user_mem s \<and>
   fs_base s1 = fs_base s \<and> kthread s1 = kthread s \<and>
   (\<forall>c. threads (thread_managers s1 c) = threads (thread_managers s c) \<and>
        suspended (thread_managers s1 c) = suspended (thread_managers s c))"
proof (induction cs arbitrary: s)
  case Nil
  then show ?case by simp
next
  case (Cons child rest)
  let ?f = "\<lambda>t. t\<lparr>parent := Some (Main_thread (cpu_id s))\<rparr>"
  from Cons.prems obtain sm where
    m: "modify child ?f s = Returns () sm" and
    r: "detach_children rest sm = Returns u s1"
    by (auto simp: and_then_Returns ThreadManager_get_def)
  note fr = modify_frame [OF m]
  note ih = Cons.IH [OF r]
  from m have live: "deref s child \<noteq> None"
    by (auto simp: modify_Returns)
  have step: "\<And>q. deref sm q = (if q = child then map_option ?f (deref s q) else deref s q)"
    using modify_deref [OF m] by simp
  have "\<And>q. deref s1 q = (if q \<in> set (child # rest) then map_option ?f (deref s q) else deref s q)"
    using ih step by (simp add: fr option.map_comp comp_def)
  moreover have "\<forall>q \<in> set (child # rest). deref s q \<noteq> None"
    using ih live step by (auto split: if_splits)
  ultimately show ?case
    using ih fr by simp
qed

lemma plain_detach_children [simp]: "plain (detach_children cs s)"
  by (induction cs arbitrary: s) (simp_all add: plain_and_then)

lemma plain_remove_from_parent [simp]: "plain (remove_from_parent this s)"
  by (simp add: remove_from_parent_def split: option.splits)

lemma plain_clear_child_tid [simp]: "plain (clear_child_tid this s)"
  by (simp add: clear_child_tid_def split: option.splits)

lemma plain_delete_Thread [simp]: "plain (delete_Thread p s)"
  by (simp add: delete_Thread_def split: option.splits tptr.splits)

lemma remove_from_parent_Returns:
  assumes "remove_from_parent this s = Returns u s'"
  shows "\<exists>t par pt. deref s this = Some t \<and> parent t = Some par \<and> deref s par = Some pt \<and>
           s' = store par (pt\<lparr>children := erase_first this (children pt)\<rparr>) s"
  using assms by (auto simp: remove_from_parent_def modify_Returns split: option.splits)

lemma clear_child_tid_Returns:
  assumes "clear_child_tid this s = Returns u s'"
  shows "\<exists>t. deref s this = Some t \<and>
           s' = (if clear_tid t \<noteq> 0
                 then s\<lparr>user_mem := store_bytes (clear_tid t) (replicate 8 0) (user_mem s)\<rparr> else s)"
  using assms by (auto simp: clear_child_tid_def split: option.splits if_splits)

lemma delete_Thread_Returns:
  assumes "delete_Thread p s = Returns u s'"
  shows "\<exists>a. p = Heap_thread a \<and> heap s a \<noteq> None \<and> s' = s\<lparr>heap := (heap s)(a := None)\<rparr>"
  using assms by (auto simp: delete_Thread_def split: option.splits tptr.splits)

lemma release_and_resume_effect:
  assumes run: "continues (release_and_resume b this next s2) = Some s'"
    and obj: "deref s2 this = Some t2"
  shows "\<exists>s5.
      (\<forall>q. deref s5 q = (if q = this then None else deref s2 q)) \<and>
      cpu_id s5 = cpu_id s2 \<and> fs_base s5 = fs_base s2 \<and> thread_counter s5 = thread_counter s2 \<and>
      max_cores s5 = max_cores s2 \<and> kthread s5 = kthread s2 \<and>
      (\<forall>c. suspended (thread_managers s5 c) = suspended (thread_managers s2 c)) \<and>
      threads (thread_managers s5 (cpu_id s2)) (tid t2) = None \<and>
      (\<forall>c. this \<noteq> Main_thread c) \<and>
      release_and_resume b this next s2 =
        (if b then (case next of
                      None \<Rightarrow> Halts Segfault
                    | Some n \<Rightarrow> Thread_resume n (erase_suspension (cpu_id s2) n s5))
         else Returns () s5)"
proof -
  let ?k3 = "\<lambda>(_::unit) s3.
     and_then (erase_thread_safely (ThreadManager_get s3) (Some this) s3) (\<lambda>_ s4.
     and_then (delete_Thread this s4) (\<lambda>_ s5.
       if b
       then (case next of
               None \<Rightarrow> Halts Segfault
             | Some n \<Rightarrow> Thread_resume n (erase_suspension (ThreadManager_get s5) n s5))
       else Returns () s5))"
  let ?k4 = "\<lambda>(_::unit) s4.
     and_then (delete_Thread this s4) (\<lambda>_ s5.
       if b
       then (case next of
               None \<Rightarrow> Halts Segfault
             | Some n \<Rightarrow> Thread_resume n (erase_suspension (ThreadManager_get s5) n s5))
       else Returns () s5)"
  let ?k5 = "\<lambda>(_::unit) s5.
       if b
       then (case next of
               None \<Rightarrow> Halts Segfault
             | Some n \<Rightarrow> Thread_resume n (erase_suspension (ThreadManager_get s5) n s5))
       else Returns () s5"
  have r: "release_and_resume b this next s2 = and_then (clear_child_tid this s2) ?k3"
    by (simp add: release_and_resume_def)
  from plain_continues [OF plain_clear_child_tid run [unfolded r]] obtain s3 where
    3: "clear_child_tid this s2 = Returns () s3" and c3: "continues (?k3 () s3) = Some s'"
    by auto
  from plain_continues [OF plain_erase_thread_safely c3] obtain s4 where
    4: "erase_thread_safely (ThreadManager_get s3) (Some this) s3 = Returns () s4" and
    c4: "continues (?k4 () s4) = Some s'"
    by auto
  from plain_continues [OF plain_delete_Thread c4] obtain s5 where
    5: "delete_Thread this s4 = Returns () s5"
    by auto
  from clear_child_tid_Returns [OF 3] obj have
    s3: "s3 = (if clear_tid t2 \<noteq> 0
               then s2\<lparr>user_mem := store_bytes (clear_tid t2) (replicate 8 0) (user_mem s2)\<rparr> else s2)"
    by auto
  have d3: "\<And>q. deref s3 q = deref s2 q" and f3: "cpu_id s3 = cpu_id s2" "fs_base s3 = fs_base s2"
    "thread_counter s3 = thread_counter s2" "thread_managers s3 = thread_managers s2"
    "max_cores s3 = max_cores s2" "kthread s3 = kthread s2"
    by (simp_all add: s3)
  from erase_thread_safely_Returns [OF 4] obj have
    s4: "s4 = upd_manager (cpu_id s2) (\<lambda>m. m\<lparr>threads := (threads m)(tid t2 := None)\<rparr>) s3"
    by (auto simp: d3 f3 ThreadManager_get_def)
  have d4: "\<And>q. deref s4 q = deref s2 q"
    by (simp add: s4 d3)
  from delete_Thread_Returns [OF 5] obtain a where
    a: "this = Heap_thread a" and s5: "s5 = s4\<lparr>heap := (heap s4)(a := None)\<rparr>"
    by auto
  have d5: "\<And>q. deref s5 q = (if q = this then None else deref s2 q)"
    by (simp add: s5 a deref_delete d4)
  have f5: "cpu_id s5 = cpu_id s2" "fs_base s5 = fs_base s2" "thread_counter s5 = thread_counter s2"
    "max_cores s5 = max_cores s2" "kthread s5 = kthread s2"
    "\<And>c. suspended (thread_managers s5 c) = suspended (thread_managers s2 c)"
    "threads (thread_managers s5 (cpu_id s2)) (tid t2) = None"
    by (simp_all add: s5 s4 f3)
  have "release_and_resume b this next s2 =
        (if b then (case next of
                      None \<Rightarrow> Halts Segfault
                    | Some n \<Rightarrow> Thread_resume n (erase_suspension (cpu_id s2) n s5))
         else Returns () s5)"
    by (simp add: r 3 4 [unfolded ThreadManager_get_def] 5 ThreadManager_get_def f5
        cong: option.case_cong)
  then show ?thesis
    using d5 f5 a by (intro exI [of _ s5]) simp
qed

text \<open>The state in which \<^verbatim>\<open>Thread::exit\<close> has released the thread, and how the call ends.\<close>

lemma Thread_exit_effect:
  assumes run: "continues (Thread_exit this s) = Some s'" and obj: "deref s this = Some t"
  shows "\<exists>par s5.
      (if this \<in> set (children t) then par = Main_thread (cpu_id s) else parent t = Some par) \<and>
      (\<forall>q. deref s5 q =
         (if q = this then None
          else map_option (\<lambda>x. if q = par then x\<lparr>children := erase_first this (children x)\<rparr> else x)
                 (if q \<in> set (children t)
                  then map_option (\<lambda>x. x\<lparr>parent := Some (Main_thread (cpu_id s))\<rparr>) (deref s q)
                  else deref s q))) \<and>
      deref s par \<noteq> None \<and>
      (\<forall>q \<in> set (children t). deref s q \<noteq> None) \<and>
      (\<forall>c. this \<noteq> Main_thread c) \<and>
      cpu_id s5 = cpu_id s \<and> fs_base s5 = fs_base s \<and> thread_counter s5 = thread_counter s \<and>
      max_cores s5 = max_cores s \<and> kthread s5 = kthread s \<and>
      (\<forall>c. suspended (thread_managers s5 c) = suspended (thread_managers s c)) \<and>
      threads (thread_managers s5 (cpu_id s)) (tid t) = None \<and>
      Thread_exit this s =
        (if get_thread_self s = Some this
         then Thread_resume par (erase_suspension (cpu_id s) par s5)
         else Returns () s5)"
proof -
  let ?me = "get_thread_self s = Some this"
  let ?main = "Main_thread (cpu_id s)"
  from run obj obtain p0 where p0: "parent t = Some p0"
    by (cases "parent t") (auto simp: Thread_exit_def continues_def)
  let ?k2 = "\<lambda>(_::unit) s2.
              (case deref s2 this of
                 None \<Rightarrow> Halts Segfault
               | Some t2 \<Rightarrow> release_and_resume ?me this (parent t2) s2)"
  let ?k1 = "\<lambda>(_::unit) s1. and_then (remove_from_parent this s1) ?k2"
  have ex: "Thread_exit this s = and_then (detach_children (children t) s) ?k1"
    using obj p0 by (simp add: Thread_exit_def Let_def)
  from plain_continues [OF plain_detach_children run [unfolded ex]] obtain s1 where
    1: "detach_children (children t) s = Returns () s1" and
    c1: "continues (?k1 () s1) = Some s'"
    by auto
  note d1 = detach_children_Returns [OF 1]
  from plain_continues [OF plain_remove_from_parent c1] obtain s2 where
    2: "remove_from_parent this s1 = Returns () s2" and
    c2: "continues (?k2 () s2) = Some s'"
    by auto
  define par where "par = (if this \<in> set (children t) then ?main else p0)"
  have t1: "deref s1 this = Some (if this \<in> set (children t) then t\<lparr>parent := Some ?main\<rparr> else t)"
    using d1 obj by simp
  from remove_from_parent_Returns [OF 2] t1 p0 obtain pt where
    pt: "deref s1 par = Some pt" and
    s2: "s2 = store par (pt\<lparr>children := erase_first this (children pt)\<rparr>) s1"
    by (auto simp: par_def split: if_splits)
  have d2: "\<And>q. deref s2 q =
      map_option (\<lambda>x. if q = par then x\<lparr>children := erase_first this (children x)\<rparr> else x) (deref s1 q)"
    using pt by (auto simp: s2 deref_store option.map_ident)
  obtain t2 where t2: "deref s2 this = Some t2" "parent t2 = Some par" "tid t2 = tid t"
    using d2 [of this] t1 p0 by (auto simp: par_def)
  from c2 t2 have c2': "continues (release_and_resume ?me this (Some par) s2) = Some s'"
    by simp
  from release_and_resume_effect [OF c2' t2(1)] obtain s5 where
    d5: "\<forall>q. deref s5 q = (if q = this then None else deref s2 q)" and
    f5: "cpu_id s5 = cpu_id s2" "fs_base s5 = fs_base s2" "thread_counter s5 = thread_counter s2"
      "max_cores s5 = max_cores s2" "kthread s5 = kthread s2"
      "\<forall>c. suspended (thread_managers s5 c) = suspended (thread_managers s2 c)"
      "threads (thread_managers s5 (cpu_id s2)) (tid t2) = None" and
    heap: "\<forall>c. this \<noteq> Main_thread c" and
    r5': "release_and_resume ?me this (Some par) s2 =
           (if ?me then (case Some par of
                           None \<Rightarrow> Halts Segfault
                         | Some n \<Rightarrow> Thread_resume n (erase_suspension (cpu_id s2) n s5))
            else Returns () s5)"
    by (elim exE conjE) (rule that; assumption)
  have r5: "release_and_resume ?me this (Some par) s2 =
           (if ?me then Thread_resume par (erase_suspension (cpu_id s2) par s5) else Returns () s5)"
    using r5' by (cases ?me) simp_all
  have f2: "cpu_id s2 = cpu_id s" "fs_base s2 = fs_base s" "thread_counter s2 = thread_counter s"
    "max_cores s2 = max_cores s" "kthread s2 = kthread s"
    "\<And>c. suspended (thread_managers s2 c) = suspended (thread_managers s c)"
    using d1 by (simp_all add: s2)
  have live: "deref s par \<noteq> None"
    using pt d1 by (auto split: if_splits)
  have res: "Thread_exit this s =
      (if ?me then Thread_resume par (erase_suspension (cpu_id s) par s5) else Returns () s5)"
    by (simp add: ex 1 2 t2 r5 f2)
  have objs: "\<And>q. deref s5 q =
         (if q = this then None
          else map_option (\<lambda>x. if q = par then x\<lparr>children := erase_first this (children x)\<rparr> else x)
                 (if q \<in> set (children t)
                  then map_option (\<lambda>x. x\<lparr>parent := Some ?main\<rparr>) (deref s q)
                  else deref s q))"
    using d1 by (simp add: d5 d2)
  have which: "if this \<in> set (children t) then par = ?main else parent t = Some par"
    by (simp add: par_def p0)
  have kids: "\<forall>q \<in> set (children t). deref s q \<noteq> None"
    using d1 by simp
  show ?thesis
    using which objs live kids heap res f5 f2 t2(3) by (intro exI [of _ par] exI [of _ s5]) simp
qed

lemma Thread_resume_effect:
  assumes "deref s p = Some pobj"
  shows "\<exists>s'. Thread_resume p s =
            Jumps (if yielded pobj then Thread_restore (stored_nexti pobj) (stored_stack pobj)
                   else Clone_return (stored_nexti pobj) (stored_stack pobj)) s' \<and>
           (\<forall>q. deref s' q = (if q = p then Some (pobj\<lparr>yielded := False\<rparr>) else deref s q)) \<and>
           fs_base s' = (fs_base s)(cpu_id s := my_tls pobj) \<and>
           cpu_id s' = cpu_id s \<and> thread_counter s' = thread_counter s \<and>
           (\<forall>c. suspended (thread_managers s' c) = suspended (thread_managers s c) \<and>
                threads (thread_managers s' c) = threads (thread_managers s c))"
  using assms
  by (auto simp: Thread_resume_def set_thread_area_def deref_store)

lemma Thread_resume_dead: "deref s p = None \<Longrightarrow> Thread_resume p s = Halts Segfault"
  by (simp add: Thread_resume_def)

text \<open>After the release, a resume of the parent changes neither parents nor children.\<close>

lemma Thread_exit_final:
  assumes run: "continues (Thread_exit this s) = Some s'" and obj: "deref s this = Some t"
  shows "\<exists>par pobj s5.
      (if this \<in> set (children t) then par = Main_thread (cpu_id s) else parent t = Some par) \<and>
      deref s par = Some pobj \<and>
      (\<forall>q. deref s5 q =
         (if q = this then None
          else map_option (\<lambda>x. if q = par then x\<lparr>children := erase_first this (children x)\<rparr> else x)
                 (if q \<in> set (children t)
                  then map_option (\<lambda>x. x\<lparr>parent := Some (Main_thread (cpu_id s))\<rparr>) (deref s q)
                  else deref s q))) \<and>
      (\<forall>q \<in> set (children t). deref s q \<noteq> None) \<and>
      (\<forall>c. this \<noteq> Main_thread c) \<and>
      (\<forall>q. map_option parent (deref s' q) = map_option parent (deref s5 q) \<and>
           map_option children (deref s' q) = map_option children (deref s5 q)) \<and>
      (if get_thread_self s = Some this
       then par \<noteq> this \<and>
            Thread_exit this s =
              Jumps (if yielded pobj then Thread_restore (stored_nexti pobj) (stored_stack pobj)
                     else Clone_return (stored_nexti pobj) (stored_stack pobj)) s' \<and>
            suspended (thread_managers s' (cpu_id s)) =
              erase_each par (suspended (thread_managers s (cpu_id s))) \<and>
            fs_base s' = (fs_base s)(cpu_id s := my_tls pobj)
       else Thread_exit this s = Returns () s' \<and> fs_base s' = fs_base s \<and>
            (\<forall>c. suspended (thread_managers s' c) = suspended (thread_managers s c)))"
proof -
  let ?me = "get_thread_self s = Some this"
  let ?main = "Main_thread (cpu_id s)"
  from Thread_exit_effect [OF run obj] obtain par s5 where
    which: "if this \<in> set (children t) then par = ?main else parent t = Some par" and
    objs: "\<forall>q. deref s5 q =
         (if q = this then None
          else map_option (\<lambda>x. if q = par then x\<lparr>children := erase_first this (children x)\<rparr> else x)
                 (if q \<in> set (children t)
                  then map_option (\<lambda>x. x\<lparr>parent := Some ?main\<rparr>) (deref s q)
                  else deref s q))" and
    live: "deref s par \<noteq> None" and
    kids: "\<forall>q \<in> set (children t). deref s q \<noteq> None" and
    heap: "\<forall>c. this \<noteq> Main_thread c" and
    f5: "cpu_id s5 = cpu_id s" "fs_base s5 = fs_base s"
      "\<forall>c. suspended (thread_managers s5 c) = suspended (thread_managers s c)" and
    res: "Thread_exit this s =
        (if ?me then Thread_resume par (erase_suspension (cpu_id s) par s5) else Returns () s5)"
    by (elim exE conjE) (rule that; assumption)
  from live obtain pobj where pobj: "deref s par = Some pobj"
    by blast
  show ?thesis
  proof (cases ?me)
    case False
    with res run have "s' = s5" "Thread_exit this s = Returns () s'"
      by (simp_all add: continues_def)
    with which pobj objs kids heap f5 False show ?thesis
      by (intro exI [of _ par] exI [of _ pobj] exI [of _ s5]) simp
  next
    case True
    let ?s6 = "erase_suspension (cpu_id s) par s5"
    from res True have r: "Thread_exit this s = Thread_resume par ?s6"
      by simp
    have neq: "par \<noteq> this"
    proof
      assume "par = this"
      then have "deref ?s6 par = None"
        using objs by simp
      from Thread_resume_dead [OF this] r run show False
        by (simp add: continues_def)
    qed
    let ?p5 = "(if par \<in> set (children t) then pobj\<lparr>parent := Some ?main\<rparr> else pobj)
                 \<lparr>children := erase_first this (children (if par \<in> set (children t) then pobj\<lparr>parent := Some ?main\<rparr> else pobj))\<rparr>"
    have p5: "deref ?s6 par = Some ?p5"
      using objs neq pobj by simp
    from Thread_resume_effect [OF p5] obtain s7 where
      j: "Thread_resume par ?s6 =
            Jumps (if yielded ?p5 then Thread_restore (stored_nexti ?p5) (stored_stack ?p5)
                   else Clone_return (stored_nexti ?p5) (stored_stack ?p5)) s7" and
      d7: "\<forall>q. deref s7 q = (if q = par then Some (?p5\<lparr>yielded := False\<rparr>) else deref ?s6 q)" and
      f7: "fs_base s7 = (fs_base ?s6)(cpu_id ?s6 := my_tls ?p5)"
        "\<forall>c. suspended (thread_managers s7 c) = suspended (thread_managers ?s6 c) \<and>
             threads (thread_managers s7 c) = threads (thread_managers ?s6 c)"
      by (elim exE conjE) (rule that; assumption)
    from j r run have s7: "s7 = s'"
      by (simp add: continues_def)
    have links: "\<forall>q. map_option parent (deref s' q) = map_option parent (deref s5 q) \<and>
           map_option children (deref s' q) = map_option children (deref s5 q)"
      using d7 p5 by (simp add: s7 [symmetric])
    have jump: "Thread_exit this s =
              Jumps (if yielded pobj then Thread_restore (stored_nexti pobj) (stored_stack pobj)
                     else Clone_return (stored_nexti pobj) (stored_stack pobj)) s'"
      using j by (simp add: r s7 split: if_splits)
    have queue: "suspended (thread_managers s' (cpu_id s)) =
              erase_each par (suspended (thread_managers s (cpu_id s)))"
      using f7(2) f5 by (simp add: s7 [symmetric] erase_suspension_def)
    have area: "fs_base s' = (fs_base s)(cpu_id s := my_tls pobj)"
      using f7(1) f5 by (simp add: s7 [symmetric] erase_suspension_def)
    from which pobj objs kids heap links neq jump queue area True show ?thesis
      by (intro exI [of _ par] exI [of _ pobj] exI [of _ s5]) simp
  qed
qed

text \<open>
  Claim C1, as amended. When \<^verbatim>\<open>exit\<close> of a thread completes, every child of the thread
  (other than the thread itself, which is gone) has the main thread of the executing CPU
  as its parent. The children list of that main thread gains no entry: it is the list
  before the call, with the first entry for the exiting thread erased when the main thread
  is the parent the thread detaches from. So a reparented child is in the main thread's
  children only if it was there before.
\<close>

theorem exit_reparents_children:
  assumes run: "continues (Thread_exit this s) = Some s'" and obj: "deref s this = Some t"
  shows "(\<forall>c \<in> set (children t). c \<noteq> this \<longrightarrow>
            map_option parent (deref s' c) = Some (Some (Main_thread (cpu_id s)))) \<and>
         (\<forall>m. deref s (Main_thread (cpu_id s)) = Some m \<longrightarrow>
            map_option children (deref s' (Main_thread (cpu_id s))) =
              Some (if parent t = Some (Main_thread (cpu_id s)) \<or> this \<in> set (children t)
                    then erase_first this (children m) else children m) \<and>
            (\<forall>m'. deref s' (Main_thread (cpu_id s)) = Some m' \<longrightarrow>
                  set (children m') \<subseteq> set (children m)))"
proof -
  let ?main = "Main_thread (cpu_id s)"
  from Thread_exit_final [OF run obj] obtain par s5 where
    which: "if this \<in> set (children t) then par = ?main else parent t = Some par" and
    objs: "\<forall>q. deref s5 q =
         (if q = this then None
          else map_option (\<lambda>x. if q = par then x\<lparr>children := erase_first this (children x)\<rparr> else x)
                 (if q \<in> set (children t)
                  then map_option (\<lambda>x. x\<lparr>parent := Some ?main\<rparr>) (deref s q)
                  else deref s q))" and
    kids: "\<forall>q \<in> set (children t). deref s q \<noteq> None" and
    heap: "\<forall>c. this \<noteq> Main_thread c" and
    links: "\<forall>q. map_option parent (deref s' q) = map_option parent (deref s5 q) \<and>
           map_option children (deref s' q) = map_option children (deref s5 q)"
    by (elim exE conjE) (rule that; assumption)
  have a: "map_option parent (deref s' c) = Some (Some ?main)"
    if "c \<in> set (children t)" "c \<noteq> this" for c
  proof -
    from that kids obtain ct where "deref s c = Some ct"
      by auto
    with that objs have "map_option parent (deref s5 c) = Some (Some ?main)"
      by simp
    with links show ?thesis
      by simp
  qed
  have b: "map_option children (deref s' ?main) =
              Some (if parent t = Some ?main \<or> this \<in> set (children t)
                    then erase_first this (children m) else children m)"
    if "deref s ?main = Some m" for m
  proof -
    have cond: "par = ?main \<longleftrightarrow> parent t = Some ?main \<or> this \<in> set (children t)"
      using which by (auto split: if_splits)
    have ne: "?main \<noteq> this"
      using heap by auto
    from objs [rule_format, of ?main] ne that
    have "map_option children (deref s5 ?main) =
            Some (if par = ?main then erase_first this (children m) else children m)"
      by (cases "par = ?main"; cases "?main \<in> set (children t)") simp_all
    with links show ?thesis
      by (simp add: cond)
  qed
  have c: "set (children m') \<subseteq> set (children m)"
    if "deref s ?main = Some m" "deref s' ?main = Some m'" for m m'
    using b [OF that(1)] that(2) set_erase_first [of this "children m"]
    by (auto split: if_splits)
  from a b c show ?thesis
    by blast
qed

text \<open>A, the executing thread, exits while its sibling B and its child C are alive.\<close>

theorem exit_reparents_children_witness:
  "map_option parent (deref (scene (A_runs @ [Exit (Heap_thread 0)])) (Heap_thread 2)) =
     Some (Some (Main_thread 0)) \<and>
   map_option children (deref (scene (A_runs @ [Exit (Heap_thread 0)])) (Main_thread 0)) =
     Some [Heap_thread 1]"
proof -
  note inst = exit_reparents_children [OF scene_A_runs(5) scene_A_runs(2), unfolded scene_A_runs(1)]
  have kid: "Heap_thread 2 \<in> set (children running_A)" "Heap_thread 2 \<noteq> Heap_thread 0"
    by (simp_all add: running_A_def)
  from inst [THEN conjunct1, rule_format, OF kid]
    inst [THEN conjunct2, rule_format, OF scene_A_runs(3), THEN conjunct1]
  show ?thesis
    by (simp add: running_A_def thread_A_def main_0_def)
qed

text \<open>
  Claim C1 as stated fails: C is the child of A; after A's exit C's parent is the main
  thread, and the main thread's children are B alone.
\<close>

theorem exit_reparents_children_counterexample:
  "map_option children (deref (scene A_runs) (Heap_thread 0)) = Some [Heap_thread 2] \<and>
   map_option parent (deref (scene (A_runs @ [Exit (Heap_thread 0)])) (Heap_thread 2)) =
     Some (Some (Main_thread 0)) \<and>
   map_option children (deref (scene (A_runs @ [Exit (Heap_thread 0)])) (Main_thread 0)) =
     Some [Heap_thread 1] \<and>
   Heap_thread 2 \<notin> set [Heap_thread 1]"
  by (simp add: eval_defs)

text \<open>
  Claim C2, as amended. When the exiting thread is the executing thread, \<^verbatim>\<open>exit\<close> erases
  every entry of its parent from the suspended queue of the executing CPU, leaves the
  thread's own entries in the queue, and ends by resuming the parent: the thread area is
  the parent's and control goes to the parent's stored return point. When another thread
  is executing, \<^verbatim>\<open>exit\<close> returns to its caller: no queue and no thread area changes.
\<close>

theorem exit_resumes_parent:
  assumes run: "continues (Thread_exit this s) = Some s'" and obj: "deref s this = Some t"
    and tree: "this \<notin> set (children t)" and par: "parent t = Some par"
  shows "(get_thread_self s = Some this \<longrightarrow>
            (\<exists>pobj. deref s par = Some pobj \<and>
               Thread_exit this s =
                 Jumps (if yielded pobj then Thread_restore (stored_nexti pobj) (stored_stack pobj)
                        else Clone_return (stored_nexti pobj) (stored_stack pobj)) s' \<and>
               fs_base s' (cpu_id s) = my_tls pobj) \<and>
            suspended (thread_managers s' (cpu_id s)) =
              erase_each par (suspended (thread_managers s (cpu_id s))) \<and>
            par \<notin> set (suspended (thread_managers s' (cpu_id s))) \<and>
            (this \<in> set (suspended (thread_managers s (cpu_id s))) \<longrightarrow>
               this \<in> set (suspended (thread_managers s' (cpu_id s))))) \<and>
         (get_thread_self s \<noteq> Some this \<longrightarrow>
            Thread_exit this s = Returns () s' \<and> fs_base s' = fs_base s \<and>
            (\<forall>c. suspended (thread_managers s' c) = suspended (thread_managers s c)))"
proof -
  from Thread_exit_final [OF run obj] tree par obtain pobj where
    pobj: "deref s par = Some pobj" and
    fin: "if get_thread_self s = Some this
       then par \<noteq> this \<and>
            Thread_exit this s =
              Jumps (if yielded pobj then Thread_restore (stored_nexti pobj) (stored_stack pobj)
                     else Clone_return (stored_nexti pobj) (stored_stack pobj)) s' \<and>
            suspended (thread_managers s' (cpu_id s)) =
              erase_each par (suspended (thread_managers s (cpu_id s))) \<and>
            fs_base s' = (fs_base s)(cpu_id s := my_tls pobj)
       else Thread_exit this s = Returns () s' \<and> fs_base s' = fs_base s \<and>
            (\<forall>c. suspended (thread_managers s' c) = suspended (thread_managers s c))"
    by auto
  show ?thesis
  proof (cases "get_thread_self s = Some this")
    case True
    with fin pobj show ?thesis
      by (auto simp: set_erase_each)
  next
    case False
    with fin show ?thesis
      by simp
  qed
qed

text \<open>A exits itself while the queue holds the main thread and A.\<close>

theorem exit_resumes_parent_witness:
  "Thread_exit (Heap_thread 0) (scene A_runs_queued) =
     Jumps (Clone_return 0x10 0x20) (scene (A_runs_queued @ [Exit (Heap_thread 0)])) \<and>
   suspended (thread_managers (scene (A_runs_queued @ [Exit (Heap_thread 0)])) 0) = [Heap_thread 0] \<and>
   fs_base (scene (A_runs_queued @ [Exit (Heap_thread 0)])) 0 = 0"
proof -
  have tree: "Heap_thread 0 \<notin> set (children queued_A)"
    and par: "parent queued_A = Some (Main_thread 0)"
    by (simp_all add: queued_A_def running_A_def thread_A_def)
  note inst = exit_resumes_parent [OF scene_A_runs_queued(6) scene_A_runs_queued(2) tree par,
      unfolded scene_A_runs_queued(1), THEN conjunct1, rule_format, OF scene_A_runs_queued(4)]
  from inst show ?thesis
    by (auto simp: scene_A_runs_queued queued_main_def main_0_def)
qed

text \<open>
  Claim C2 as stated fails: A is the executing thread and is in the queue behind the main
  thread; its exit jumps into the main thread and A is still in the queue. The entry that
  was erased is the parent's.
\<close>

theorem exit_resumes_parent_counterexample:
  "get_thread_self (scene A_runs_queued) = Some (Heap_thread 0) \<and>
   suspended (thread_managers (scene A_runs_queued) 0) = [Main_thread 0, Heap_thread 0] \<and>
   (case Thread_exit (Heap_thread 0) (scene A_runs_queued) of
      Jumps j s' \<Rightarrow> suspended (thread_managers s' 0) = [Heap_thread 0]
    | _ \<Rightarrow> False)"
  by (simp add: eval_defs)


section \<open>The thread-id counter\<close>

lemma counter_is_simps [simp]:
  "counter_is n (Returns x s) \<longleftrightarrow> thread_counter s = n"
  "counter_is n (Jumps j s) \<longleftrightarrow> thread_counter s = n"
  "counter_is n (Throws e s) \<longleftrightarrow> thread_counter s = n"
  "counter_is n (Halts h)"
  by (simp_all add: counter_is_def continues_def)

lemma counter_is_and_then:
  "counter_is n r \<Longrightarrow> (\<And>x s1. thread_counter s1 = n \<Longrightarrow> counter_is n (f x s1)) \<Longrightarrow>
   counter_is n (and_then r f)"
  by (cases r) simp_all

lemma counter_is_continues:
  "counter_is n r \<Longrightarrow> continues r = Some s' \<Longrightarrow> thread_counter s' = n"
  by (simp add: counter_is_def)

lemma counter_modify [simp]: "thread_counter s = n \<Longrightarrow> counter_is n (modify p f s)"
  by (simp add: modify_def split: option.splits)

lemma counter_Thread_resume [simp]: "thread_counter s = n \<Longrightarrow> counter_is n (Thread_resume p s)"
  by (simp add: Thread_resume_def set_thread_area_def split: option.splits)

lemma counter_insert_thread [simp]:
  "thread_counter s = n \<Longrightarrow> counter_is n (insert_thread ok c p s)"
  by (simp add: insert_thread_def split: option.splits)

lemma counter_erase_thread_safely [simp]:
  "thread_counter s = n \<Longrightarrow> counter_is n (erase_thread_safely c p s)"
  by (simp add: erase_thread_safely_def split: option.splits)

lemma counter_wakeup_next [simp]: "thread_counter s = n \<Longrightarrow> counter_is n (wakeup_next c s)"
  by (simp add: wakeup_next_def split: list.splits)

lemma counter_Thread_suspend [simp]:
  "thread_counter s = n \<Longrightarrow> counter_is n (Thread_suspend ok p a b s)"
  by (auto simp: Thread_suspend_def store_return_def ThreadManager_suspend_def
      intro!: counter_is_and_then)

lemma counter_Thread_yield [simp]: "thread_counter s = n \<Longrightarrow> counter_is n (Thread_yield p s)"
  by (auto simp: Thread_yield_def intro!: counter_is_and_then)

lemma counter_suspend_and_yield [simp]:
  "thread_counter s = n \<Longrightarrow> counter_is n (thread_suspend_and_yield ok a b s)"
  by (auto simp: thread_suspend_and_yield_def intro!: counter_is_and_then split: option.splits)

lemma counter_resume [simp]: "thread_counter s = n \<Longrightarrow> counter_is n (resume i s)"
  by (simp add: resume_def split: option.splits)

lemma counter_Thread_activate [simp]:
  "thread_counter s = n \<Longrightarrow> counter_is n (Thread_activate p a s)"
  by (auto simp: Thread_activate_def libc_store_this_def set_thread_area_def
      intro!: counter_is_and_then split: option.splits)

lemma counter_setup_main_thread [simp]:
  "thread_counter s = n \<Longrightarrow> counter_is n (setup_main_thread a s)"
  by (auto simp: setup_main_thread_def Let_def Thread_init_def intro!: counter_is_and_then)

lemma counter_migrate [simp]: "thread_counter s = n \<Longrightarrow> counter_is n (migrate ok c i b s)"
  by (auto simp: migrate_def intro!: counter_is_and_then split: option.splits)

lemma counter_detach_children [simp]:
  "thread_counter s = n \<Longrightarrow> counter_is n (detach_children cs s)"
  by (induction cs arbitrary: s) (auto intro!: counter_is_and_then)

lemma counter_release_and_resume [simp]:
  "thread_counter s = n \<Longrightarrow> counter_is n (release_and_resume b p nx s)"
  by (auto simp: release_and_resume_def clear_child_tid_def delete_Thread_def erase_suspension_def
      intro!: counter_is_and_then split: option.splits tptr.splits)

lemma counter_Thread_exit [simp]: "thread_counter s = n \<Longrightarrow> counter_is n (Thread_exit p s)"
  by (auto simp: Thread_exit_def Let_def remove_from_parent_def
      intro!: counter_is_and_then split: option.splits)

lemma counter_thread_create_try [simp]:
  "thread_counter s = n \<Longrightarrow> counter_is n (thread_create_try al i par flags ctid stack s)"
  by (auto simp: thread_create_try_def Let_def Thread_init_def push_child_def write_child_tid_def
      record_clear_tid_def intro!: counter_is_and_then split: option.splits)

lemma counter_thread_create:
  "counter_is (thread_counter s + 1) (thread_create al par flags ctid stack s)"
proof -
  have "counter_is (thread_counter s + 1)
          (thread_create_try al (ucast (thread_counter s)) par flags ctid stack
             (s\<lparr>thread_counter := thread_counter s + 1\<rparr>))"
    by simp
  then show ?thesis
    by (cases "thread_create_try al (ucast (thread_counter s)) par flags ctid stack
             (s\<lparr>thread_counter := thread_counter s + 1\<rparr>)")
      (simp_all add: thread_create_def generate_new_thread_id_def)
qed

lemma exec_counter:
  "exec c s = Some s' \<Longrightarrow>
   thread_counter s' =
     (case c of Create al p flags ctid stack \<Rightarrow> thread_counter s + 1 | _ \<Rightarrow> thread_counter s)"
proof (cases c)
  case (Create al p flags ctid stack)
  assume "exec c s = Some s'"
  with Create counter_is_continues [OF counter_thread_create] show ?thesis
    by simp
qed (auto simp: erase_suspension_def split: if_splits
       elim: counter_is_continues [rotated])




lemma failed_creation:
  "new_Thread al = None \<Longrightarrow>
   thread_create al par flags ctid stack s = Returns None (s\<lparr>thread_counter := thread_counter s + 1\<rparr>)"
  by (simp add: thread_create_def generate_new_thread_id_def thread_create_try_def)

lemma run_failed_creates:
  "run (replicate n failed_create) s = Some (s\<lparr>thread_counter := thread_counter s + of_nat n\<rparr>)"
proof (induction n arbitrary: s)
  case 0
  then show ?case by simp
next
  case (Suc n)
  have "exec failed_create s = Some (s\<lparr>thread_counter := thread_counter s + 1\<rparr>)"
    by (simp add: failed_create_def no_memory_def failed_creation continues_def)
  then show ?case
    by (simp add: Suc.IH add.assoc)
qed






section \<open>The ids in use stay below the counter\<close>

lemma ends_with_simps [simp]:
  "ends_with P (Returns x s) \<longleftrightarrow> P s"
  "ends_with P (Jumps j s) \<longleftrightarrow> P s"
  "ends_with P (Throws e s) \<longleftrightarrow> P s"
  "ends_with P (Halts h)"
  by (simp_all add: ends_with_def continues_def)

lemma ends_with_and_then:
  "ends_with P r \<Longrightarrow> (\<And>x s1. P s1 \<Longrightarrow> ends_with P (f x s1)) \<Longrightarrow> ends_with P (and_then r f)"
  by (cases r) simp_all

lemma ends_with_continues: "ends_with P r \<Longrightarrow> continues r = Some s' \<Longrightarrow> P s'"
  by (simp add: ends_with_def)

lemma has_id_key: "threads (thread_managers s c) k = Some p \<Longrightarrow> has_id s k"
  by (auto simp: has_id_def)

lemma has_id_heap: "heap s a = Some t \<Longrightarrow> has_id s (tid t)"
  by (auto simp: has_id_def)

lemma has_id_main: "has_id s (tid (main_thread (thread_managers s c)))"
  by (auto simp: has_id_def)

lemma has_id_deref: "deref s p = Some t \<Longrightarrow> has_id s (tid t)"
  by (cases p) (auto simp: deref.simps has_id_heap has_id_main split: if_splits)

lemma has_id_other_fields [simp]:
  "has_id (s\<lparr>thread_counter := n\<rparr>) k = has_id s k"
  "has_id (s\<lparr>user_mem := m\<rparr>) k = has_id s k"
  "has_id (s\<lparr>fs_base := b\<rparr>) k = has_id s k"
  "has_id (s\<lparr>kthread := kt\<rparr>) k = has_id s k"
  "has_id (s\<lparr>cpu_id := c\<rparr>) k = has_id s k"
  by (simp_all add: has_id_def)

lemma has_id_upd_queue [simp]:
  "has_id (upd_manager c (\<lambda>m. m\<lparr>suspended := q m\<rparr>) s) k = has_id s k"
  by (auto simp: has_id_def upd_manager_def)

lemma has_id_store:
  assumes "deref s p = Some t" and "has_id (store p t' s) k"
  shows "has_id s k \<or> k = tid t'"
proof (cases p)
  case (Main_thread c)
  with assms(2) show ?thesis
    by (auto simp: has_id_def store.simps upd_manager_def split: if_splits)
next
  case (Heap_thread a)
  with assms(2) show ?thesis
    by (auto simp: has_id_def store.simps split: if_splits)
qed

lemma ids_from_refl [simp]: "ids_from K s s"
  by (simp add: ids_from_def)

lemma ids_from_trans: "ids_from K s s1 \<Longrightarrow> ids_from K s1 s2 \<Longrightarrow> ids_from K s s2"
  by (auto simp: ids_from_def)

lemma ids_from_step:
  assumes "ids_from K s0 s" and "\<And>k. has_id s' k \<Longrightarrow> has_id s k \<or> k \<in> K"
  shows "ids_from K s0 s'"
  using assms by (auto simp: ids_from_def)

lemma ids_from_other_fields [simp]:
  "ids_from K s0 (s\<lparr>user_mem := m\<rparr>) = ids_from K s0 s"
  "ids_from K s0 (s\<lparr>fs_base := b\<rparr>) = ids_from K s0 s"
  "ids_from K s0 (s\<lparr>kthread := kt\<rparr>) = ids_from K s0 s"
  "ids_from K s0 (s\<lparr>cpu_id := c\<rparr>) = ids_from K s0 s"
  "ids_from K s0 (s\<lparr>thread_counter := n\<rparr>) = ids_from K s0 s"
  "ids_from K s0 (upd_manager c (\<lambda>m. m\<lparr>suspended := q m\<rparr>) s) = ids_from K s0 s"
  by (simp_all add: ids_from_def)

lemma ids_from_store:
  assumes "ids_from K s0 s" and "deref s p = Some t" and "tid t' = tid t \<or> tid t' \<in> K"
  shows "ids_from K s0 (store p t' s)"
proof (rule ids_from_step [OF assms(1)])
  fix k
  assume "has_id (store p t' s) k"
  from has_id_store [OF assms(2) this] assms(3) has_id_deref [OF assms(2)]
  show "has_id s k \<or> k \<in> K"
    by auto
qed

lemma ids_from_modify:
  assumes "ids_from K s0 s" and "\<And>t. tid (f t) = tid t \<or> tid (f t) \<in> K"
  shows "ends_with (ids_from K s0) (modify p f s)"
  using assms by (auto simp: modify_def ids_from_store split: option.splits)

lemma ids_from_and_then:
  "ends_with (ids_from K s0) r \<Longrightarrow>
   (\<And>x s1. ids_from K s0 s1 \<Longrightarrow> ends_with (ids_from K s0) (f x s1)) \<Longrightarrow>
   ends_with (ids_from K s0) (and_then r f)"
  by (rule ends_with_and_then)

lemma ids_from_Thread_init:
  "ids_from K s0 s \<Longrightarrow> sint i \<in> K \<Longrightarrow> ends_with (ids_from K s0) (Thread_init p i s)"
  by (simp add: Thread_init_def ids_from_modify)

lemma ids_from_Thread_resume:
  "ids_from K s0 s \<Longrightarrow> ends_with (ids_from K s0) (Thread_resume p s)"
  by (auto simp: Thread_resume_def set_thread_area_def ids_from_store split: option.splits)

lemma ids_from_wakeup_next:
  "ids_from K s0 s \<Longrightarrow> ends_with (ids_from K s0) (wakeup_next c s)"
  by (simp add: wakeup_next_def split: list.splits)

lemma ids_from_Thread_suspend:
  "ids_from K s0 s \<Longrightarrow> ends_with (ids_from K s0) (Thread_suspend ok p a b s)"
  by (auto simp: Thread_suspend_def store_return_def ThreadManager_suspend_def
      intro!: ids_from_and_then ids_from_modify)

lemma ids_from_Thread_yield:
  "ids_from K s0 s \<Longrightarrow> ends_with (ids_from K s0) (Thread_yield p s)"
  by (auto simp: Thread_yield_def
      intro!: ids_from_and_then ids_from_modify ids_from_wakeup_next ids_from_Thread_resume)

lemma ids_from_suspend_and_yield:
  "ids_from K s0 s \<Longrightarrow> ends_with (ids_from K s0) (thread_suspend_and_yield ok a b s)"
  by (auto simp: thread_suspend_and_yield_def split: option.splits
      intro!: ids_from_and_then ids_from_Thread_suspend ids_from_Thread_yield)

lemma ids_from_resume: "ids_from K s0 s \<Longrightarrow> ends_with (ids_from K s0) (resume i s)"
  by (simp add: resume_def ids_from_Thread_resume split: option.splits)

lemma ids_from_Thread_activate:
  "ids_from K s0 s \<Longrightarrow> ends_with (ids_from K s0) (Thread_activate p a s)"
  by (auto simp: Thread_activate_def libc_store_this_def set_thread_area_def split: option.splits
      intro!: ids_from_and_then ids_from_modify)

lemma ids_from_setup_main_thread:
  "ids_from K s0 s \<Longrightarrow> 0 \<in> K \<Longrightarrow> ends_with (ids_from K s0) (setup_main_thread a s)"
  by (auto simp: setup_main_thread_def Let_def
      intro!: ids_from_and_then ids_from_modify ids_from_Thread_init ids_from_Thread_activate)

lemma ids_from_detach_children:
  "ids_from K s0 s \<Longrightarrow> ends_with (ids_from K s0) (detach_children cs s)"
  by (induction cs arbitrary: s) (auto intro!: ids_from_and_then ids_from_modify)

lemma ids_from_remove_from_parent:
  "ids_from K s0 s \<Longrightarrow> ends_with (ids_from K s0) (remove_from_parent p s)"
  by (auto simp: remove_from_parent_def split: option.splits intro!: ids_from_modify)

lemma ids_from_clear_child_tid:
  "ids_from K s0 s \<Longrightarrow> ends_with (ids_from K s0) (clear_child_tid p s)"
  by (auto simp: clear_child_tid_def split: option.splits)

lemma ids_from_push_child:
  "ids_from K s0 s \<Longrightarrow> ends_with (ids_from K s0) (push_child ok p s)"
  by (auto simp: push_child_def ids_from_store split: option.splits)

lemma ids_from_write_child_tid:
  "ids_from K s0 s \<Longrightarrow> ends_with (ids_from K s0) (write_child_tid p flags ctid s)"
  by (auto simp: write_child_tid_def split: option.splits)

lemma ids_from_record_clear_tid:
  "ids_from K s0 s \<Longrightarrow> ends_with (ids_from K s0) (record_clear_tid p flags ctid s)"
  by (auto simp: record_clear_tid_def intro!: ids_from_modify)

text \<open>The registry operations and \<^verbatim>\<open>delete\<close>.\<close>

lemma ids_from_erase_thread_safely:
  assumes "ids_from K s0 s"
  shows "ends_with (ids_from K s0) (erase_thread_safely c th s)"
proof -
  have "ids_from K s0 (upd_manager c (\<lambda>m. m\<lparr>threads := (threads m)(k := None)\<rparr>) s)" for k
    by (rule ids_from_step [OF assms])
      (auto simp: has_id_def upd_manager_def split: if_splits)
  then show ?thesis
    by (simp add: erase_thread_safely_def split: option.splits)
qed

lemma ids_from_insert_thread:
  assumes "ids_from K s0 s"
  shows "ends_with (ids_from K s0) (insert_thread ok c th s)"
proof (cases "deref s th")
  case None
  then show ?thesis
    by (simp add: insert_thread_def)
next
  case (Some t)
  have "ids_from K s0 (upd_manager c (\<lambda>m. m\<lparr>threads := (threads m)(tid t \<mapsto> th)\<rparr>) s)"
  proof (rule ids_from_step [OF assms])
    fix k
    assume "has_id (upd_manager c (\<lambda>m. m\<lparr>threads := (threads m)(tid t \<mapsto> th)\<rparr>) s) k"
    then have "has_id s k \<or> k = tid t"
      by (auto simp: has_id_def upd_manager_def split: if_splits)
    with has_id_deref [OF Some] show "has_id s k \<or> k \<in> K"
      by auto
  qed
  moreover have "upd_manager c
          (\<lambda>m. case threads m (tid t) of
                  None \<Rightarrow> m\<lparr>threads := (threads m)(tid t \<mapsto> th)\<rparr>
                | Some _ \<Rightarrow> m) s =
        (case threads (thread_managers s c) (tid t) of
           None \<Rightarrow> upd_manager c (\<lambda>m. m\<lparr>threads := (threads m)(tid t \<mapsto> th)\<rparr>) s
         | Some _ \<Rightarrow> s)"
    by (simp add: upd_manager_def split: option.splits)
  ultimately show ?thesis
    using Some assms by (simp add: insert_thread_def split: option.splits)
qed

lemma ids_from_delete_Thread:
  assumes "ids_from K s0 s"
  shows "ends_with (ids_from K s0) (delete_Thread p s)"
proof -
  have "ids_from K s0 (s\<lparr>heap := (heap s)(a := None)\<rparr>)" for a
    by (rule ids_from_step [OF assms]) (auto simp: has_id_def split: if_splits)
  then show ?thesis
    by (simp add: delete_Thread_def split: tptr.splits option.splits)
qed

lemma ids_from_migrate:
  "ids_from K s0 s \<Longrightarrow> ends_with (ids_from K s0) (migrate ok this i cpu s)"
  by (auto simp: migrate_def split: option.splits
      intro!: ids_from_and_then ids_from_erase_thread_safely ids_from_insert_thread)

lemma ids_from_release_and_resume:
  "ids_from K s0 s \<Longrightarrow> ends_with (ids_from K s0) (release_and_resume e this nxt s)"
  by (auto simp: release_and_resume_def erase_suspension_def split: option.splits
      intro!: ids_from_and_then ids_from_clear_child_tid ids_from_erase_thread_safely
        ids_from_delete_Thread ids_from_Thread_resume)

lemma ids_from_Thread_exit:
  "ids_from K s0 s \<Longrightarrow> ends_with (ids_from K s0) (Thread_exit this s)"
  by (auto simp: Thread_exit_def Let_def split: option.splits
      intro!: ids_from_and_then ids_from_detach_children ids_from_remove_from_parent
        ids_from_release_and_resume)

lemma ids_from_thread_create_try:
  assumes "ids_from K s0 s" and "0 \<in> K" and "sint i \<in> K"
  shows "ends_with (ids_from K s0) (thread_create_try al i par flags ctid stack s)"
proof (cases "new_Thread al")
  case None
  then show ?thesis
    using assms by (simp add: thread_create_try_def)
next
  case (Some a)
  have "ids_from K s0 (s\<lparr>heap := (heap s)(a \<mapsto> fresh_Thread)\<rparr>)"
  proof (rule ids_from_step [OF assms(1)])
    fix k
    assume "has_id (s\<lparr>heap := (heap s)(a \<mapsto> fresh_Thread)\<rparr>) k"
    with assms(2) show "has_id s k \<or> k \<in> K"
      by (auto simp: has_id_def fresh_Thread_def split: if_splits)
  qed
  then show ?thesis
    using assms(3)
    by (auto simp: thread_create_try_def Some Let_def
        intro!: ids_from_and_then ids_from_Thread_init ids_from_modify ids_from_push_child
          ids_from_write_child_tid ids_from_record_clear_tid ids_from_insert_thread)
qed

lemma ids_from_thread_create:
  "ends_with (ids_from {0, next_tid s} s) (thread_create al par flags ctid stack s)"
proof -
  let ?s0 = "s\<lparr>thread_counter := thread_counter s + 1\<rparr>"
  have "ends_with (ids_from {0, next_tid s} s)
          (thread_create_try al (ucast (thread_counter s)) par flags ctid stack ?s0)"
    by (rule ids_from_thread_create_try) (simp_all add: next_tid_def)
  then show ?thesis
    by (cases "thread_create_try al (ucast (thread_counter s)) par flags ctid stack ?s0")
      (simp_all add: thread_create_def generate_new_thread_id_def)
qed

lemma exec_ids_from:
  assumes "exec c s = Some s'"
  shows "ids_from (case c of Create al p flags ctid stack \<Rightarrow> {0, next_tid s} | _ \<Rightarrow> {0}) s s'"
proof (cases c)
  case (Create al p flags ctid stack)
  with assms ends_with_continues [OF ids_from_thread_create] show ?thesis
    by simp
next
  case (Exit t)
  with assms ends_with_continues [OF ids_from_Thread_exit [OF ids_from_refl]] show ?thesis
    by simp
next
  case (Suspend ok t ni st)
  with assms ends_with_continues [OF ids_from_Thread_suspend [OF ids_from_refl]] show ?thesis
    by simp
next
  case (Yield t)
  with assms ends_with_continues [OF ids_from_Thread_yield [OF ids_from_refl]] show ?thesis
    by simp
next
  case (Suspend_and_yield ok ni st)
  with assms ends_with_continues [OF ids_from_suspend_and_yield [OF ids_from_refl]] show ?thesis
    by simp
next
  case (Resume i)
  with assms ends_with_continues [OF ids_from_resume [OF ids_from_refl]] show ?thesis
    by simp
next
  case (Resume_thread t)
  with assms ends_with_continues [OF ids_from_Thread_resume [OF ids_from_refl]] show ?thesis
    by simp
next
  case (Activate t a)
  with assms ends_with_continues [OF ids_from_Thread_activate [OF ids_from_refl]] show ?thesis
    by simp
next
  case (Setup_main a)
  have "ends_with (ids_from {0} s) (setup_main_thread a s)"
    by (rule ids_from_setup_main_thread) simp_all
  with assms Setup_main ends_with_continues show ?thesis
    by simp
next
  case (Migrate ok this i cpu)
  with assms ends_with_continues [OF ids_from_migrate [OF ids_from_refl]] show ?thesis
    by simp
next
  case (Insert ok c0 t)
  with assms ends_with_continues [OF ids_from_insert_thread [OF ids_from_refl]] show ?thesis
    by simp
next
  case (Erase c0 t)
  with assms ends_with_continues [OF ids_from_erase_thread_safely [OF ids_from_refl]] show ?thesis
    by simp
next
  case (Wakeup c0)
  with assms ends_with_continues [OF ids_from_wakeup_next [OF ids_from_refl]] show ?thesis
    by simp
next
  case (Erase_suspension c0 t)
  with assms show ?thesis
    by (auto simp: erase_suspension_def)
next
  case (On_cpu c0)
  with assms show ?thesis
    by (auto split: if_splits)
qed

text \<open>Words below \<open>2^32\<close>: the counter goes up by one, and narrowing keeps numbers apart.\<close>

lemma unat_counter_succ_wide:
  assumes "unat (c :: 64 word) < 2 ^ 32"
  shows "unat (c + 1) = unat c + 1"
  using assms by (simp add: unat_word_ariths)

lemma below_counter_zero: "0 < n \<Longrightarrow> below_counter n 0"
  unfolding below_counter_def by (rule exI [of _ 0]) simp

lemma below_counter_succ:
  assumes "unat (n :: 64 word) < 2 ^ 32" and "below_counter n k"
  shows "below_counter (n + 1) k"
proof -
  from assms(2) obtain w where w: "w < n" "k = sint (ucast w :: 32 word)"
    by (auto simp: below_counter_def)
  have "w < n + 1"
    using w(1) unat_counter_succ_wide [OF assms(1)] by (simp add: word_less_nat_alt)
  with w(2) show ?thesis
    by (auto simp: below_counter_def)
qed

lemma below_counter_self:
  assumes "unat (n :: 64 word) < 2 ^ 32"
  shows "below_counter (n + 1) (sint (ucast n :: 32 word))"
proof -
  have "n < n + 1"
    using unat_counter_succ_wide [OF assms] by (simp add: word_less_nat_alt)
  then show ?thesis
    by (auto simp: below_counter_def)
qed

lemma narrow_inject:
  assumes "unat (n :: 64 word) < 2 ^ 32" and "w < n"
  shows "sint (ucast w :: 32 word) \<noteq> sint (ucast n :: 32 word)"
proof
  assume "sint (ucast w :: 32 word) = sint (ucast n :: 32 word)"
  then have "(ucast w :: 32 word) = ucast n"
    by (rule signed_word_eqI)
  then have "unat (ucast w :: 32 word) = unat (ucast n :: 32 word)"
    by simp
  moreover have "unat w < 2 ^ 32"
    using assms by (simp add: word_less_nat_alt)
  ultimately have "unat w = unat n"
    using assms(1) by (simp add: unsigned_ucast_eq take_bit_nat_eq_self)
  with assms(2) show False
    by (simp add: word_less_nat_alt)
qed

lemma not_below_counter_next:
  assumes "unat (thread_counter s) < 2 ^ 32"
  shows "\<not> below_counter (thread_counter s) (next_tid s)"
proof
  assume "below_counter (thread_counter s) (next_tid s)"
  then obtain w where "w < thread_counter s"
    "sint (ucast w :: 32 word) = sint (ucast (thread_counter s) :: 32 word)"
    by (auto simp: below_counter_def next_tid_def)
  with narrow_inject [OF assms] show False
    by blast
qed

text \<open>Every call keeps the invariant, as long as the counter stays below \<open>2^32\<close>.\<close>

lemma exec_ids_inv:
  assumes inv: "ids_inv s" and ex: "exec c s = Some s'"
    and small: "unat (thread_counter s) < 2 ^ 32"
  shows "ids_inv s'"
proof (cases "\<exists>al p flags ctid stack. c = Create al p flags ctid stack")
  case True
  then obtain al p flags ctid stack where c: "c = Create al p flags ctid stack"
    by blast
  from exec_counter [OF ex] c have n: "thread_counter s' = thread_counter s + 1"
    by simp
  from exec_ids_from [OF ex] c have ids: "ids_from {0, next_tid s} s s'"
    by simp
  have pos: "0 < thread_counter s + 1"
    using unat_counter_succ_wide [OF small] by (simp add: word_less_nat_alt)
  have "below_counter (thread_counter s + 1) k" if "has_id s' k" for k
  proof -
    from ids that have "has_id s k \<or> k = 0 \<or> k = next_tid s"
      by (auto simp: ids_from_def)
    then show ?thesis
    proof (elim disjE)
      assume "has_id s k"
      with inv have "below_counter (thread_counter s) k"
        by (simp add: ids_inv_def)
      then show ?thesis
        by (rule below_counter_succ [OF small])
    next
      assume "k = 0"
      with pos show ?thesis
        by (simp add: below_counter_zero)
    next
      assume "k = next_tid s"
      then show ?thesis
        by (simp add: next_tid_def below_counter_self [OF small])
    qed
  qed
  with pos show ?thesis
    by (simp add: ids_inv_def n)
next
  case False
  from exec_counter [OF ex] False have n: "thread_counter s' = thread_counter s"
    by (cases c) simp_all
  from exec_ids_from [OF ex] False have ids: "ids_from {0} s s'"
    by (cases c) simp_all
  from inv have pos: "0 < thread_counter s"
    by (simp add: ids_inv_def)
  have "below_counter (thread_counter s) k" if "has_id s' k" for k
  proof -
    from ids that have "has_id s k \<or> k = 0"
      by (auto simp: ids_from_def)
    with inv pos show ?thesis
      by (auto simp: ids_inv_def below_counter_zero)
  qed
  with pos show ?thesis
    by (simp add: ids_inv_def n)
qed

lemma run_ids_inv:
  "ids_inv s \<Longrightarrow> run cs s = Some s' \<Longrightarrow> unat (thread_counter s) + creations cs < 2 ^ 32 \<Longrightarrow>
   ids_inv s' \<and> unat (thread_counter s') = unat (thread_counter s) + creations cs"
proof (induction cs arbitrary: s)
  case Nil
  then show ?case
    by simp
next
  case (Cons c cs)
  from Cons.prems(2) obtain s1 where ex: "exec c s = Some s1" and rest: "run cs s1 = Some s'"
    by (auto split: option.splits)
  from Cons.prems(3) have small: "unat (thread_counter s) < 2 ^ 32"
    by simp
  have inv1: "ids_inv s1"
    by (rule exec_ids_inv [OF Cons.prems(1) ex small])
  have n: "unat (thread_counter s1) + creations cs = unat (thread_counter s) + creations (c # cs)"
    using exec_counter [OF ex] unat_counter_succ_wide [OF small] by (cases c) simp_all
  with Cons.prems(3) have "unat (thread_counter s1) + creations cs < 2 ^ 32"
    by simp
  from Cons.IH [OF inv1 rest this] n show ?case
    by simp
qed

lemma ids_inv_boot: "ids_inv (boot n)"
proof -
  have z: "k = 0" if "has_id (boot n) k" for k
    using that by (auto simp: has_id_def boot_def fresh_Thread_def)
  have "below_counter 1 k" if h: "has_id (boot n) k" for k
    unfolding z [OF h] by (rule below_counter_zero) simp
  moreover have "thread_counter (boot n) = 1"
    by (simp add: boot_def)
  ultimately show ?thesis
    by (simp add: ids_inv_def)
qed

lemma run_append:
  "run (cs @ ds) s = (case run cs s of None \<Rightarrow> None | Some s1 \<Rightarrow> run ds s1)"
  by (induction cs arbitrary: s) (simp_all split: option.splits)

text \<open>
  Claim C8, as amended. The kernel has come from the start-up state through any sequence
  of calls of the interface with fewer than 2^32 - 1 calls of \<^verbatim>\<open>thread_create\<close>, and a
  further call of \<^verbatim>\<open>thread_create\<close> returns a thread. Then the thread carries the id
  taken from the counter, it is registered with the executing CPU's manager and with no
  other, it is in the children of the parent given to the call, and with
  \<^verbatim>\<open>CLONE_CHILD_SETTID\<close> set \<open>ctid\<close> is not null and the \<^verbatim>\<open>pid_t\<close> at \<open>ctid\<close> is the
  thread's id.
\<close>

theorem thread_create_registers:
  assumes reach: "run cs (boot n) = Some s"
    and bound: "creations cs + 1 < 2 ^ 32"
    and ret: "thread_create al par flags ctid stack s = Returns (Some th) s'"
  shows "\<exists>t p pt. deref s' th = Some t \<and> tid t = next_tid s \<and>
           (\<forall>c. registered s' c th \<longleftrightarrow> c = cpu_id s) \<and>
           par = Some p \<and> deref s' p = Some pt \<and> th \<in> set (children pt) \<and>
           (flags AND CLONE_CHILD_SETTID \<noteq> 0 \<longrightarrow>
              ctid \<noteq> 0 \<and> sint (read_pid_t (user_mem s') ctid) = tid t)"
proof -
  have one: "unat (thread_counter (boot n)) = 1"
    by (simp add: boot_def)
  from bound have "unat (thread_counter (boot n)) + creations cs < 2 ^ 32"
    by (simp add: one)
  from run_ids_inv [OF ids_inv_boot reach this]
  have inv: "ids_inv s" and n: "unat (thread_counter s) = 1 + creations cs"
    by (simp_all add: one)
  from n bound have small: "unat (thread_counter s) < 2 ^ 32"
    by simp
  have "threads (thread_managers s c) (next_tid s) = None" for c
  proof (cases "threads (thread_managers s c) (next_tid s)")
    case None
    then show ?thesis .
  next
    case (Some q)
    from has_id_key [OF this] inv have "below_counter (thread_counter s) (next_tid s)"
      by (simp add: ids_inv_def)
    with not_below_counter_next [OF small] show ?thesis
      by simp
  qed
  then show ?thesis
    by (rule thread_create_fresh_id [OF ret])
qed

text \<open>The creation of thread A by CPU 0's main thread, with \<^verbatim>\<open>CLONE_CHILD_SETTID\<close>.\<close>

theorem thread_create_registers_witness:
  "\<exists>t p pt. deref (scene creates_A) (Heap_thread 0) = Some t \<and>
     tid t = next_tid (scene [Setup_main 0x7000]) \<and>
     (\<forall>c. registered (scene creates_A) c (Heap_thread 0) \<longleftrightarrow>
          c = cpu_id (scene [Setup_main 0x7000])) \<and>
     Some (Main_thread 0) = Some p \<and> deref (scene creates_A) p = Some pt \<and>
     Heap_thread 0 \<in> set (children pt) \<and>
     (CLONE_CHILD_SETTID AND CLONE_CHILD_SETTID \<noteq> 0 \<longrightarrow>
        (0x500 :: addr) \<noteq> 0 \<and> sint (read_pid_t (user_mem (scene creates_A)) 0x500) = tid t)"
proof -
  let ?s = "scene [Setup_main 0x7000]"
  have reach: "run [Setup_main 0x7000] (boot 2) = Some ?s"
    by (simp add: eval_defs)
  have bound: "creations [Setup_main 0x7000] + 1 < 2 ^ 32"
    by simp
  have ret: "thread_create (alloc_at 0) (Some (Main_thread 0)) CLONE_CHILD_SETTID 0x500 0x8000 ?s =
             Returns (Some (Heap_thread 0)) (scene creates_A)"
    by (simp add: eval_defs)
  show ?thesis
    by (rule thread_create_registers [OF reach bound ret])
qed

text \<open>
  Claim C8 as stated fails: after the creation of thread A and 4294967295 more calls of
  \<^verbatim>\<open>thread_create\<close> (here all failing, each one still taking an id) the counter is
  \<open>0x100000001\<close>, and the id that the next call takes is 1, the id of A, which is alive
  and registered. The call returns a new thread with the id 1, \<^verbatim>\<open>emplace\<close> has kept
  the entry of A, and the returned thread is in no registry.
\<close>

theorem thread_create_unregistered_counterexample:
  "run (creates_A @ replicate 4294967295 failed_create) (boot 2) = Some wrapped_A \<and>
   (case thread_create (alloc_at 1) (Some (Main_thread 0)) 0 0 0x9000 wrapped_A of
      Returns (Some th) s' \<Rightarrow>
        th = Heap_thread 1 \<and> map_option tid (deref s' th) = Some 1 \<and>
        (\<forall>c. \<not> registered s' c th) \<and> get_thread 1 s' = Some (Heap_thread 0)
    | _ \<Rightarrow> False)"
proof -
  have a: "run creates_A (boot 2) = Some (scene creates_A)"
    by (simp add: eval_defs)
  have b: "run (replicate 4294967295 failed_create) (scene creates_A) = Some wrapped_A"
    unfolding run_failed_creates wrapped_A_def by (simp add: scene_creates_A)
  have "run (creates_A @ replicate 4294967295 failed_create) (boot 2) = Some wrapped_A"
    by (simp only: run_append a option.case b)
  moreover have "(case thread_create (alloc_at 1) (Some (Main_thread 0)) 0 0 0x9000 wrapped_A of
      Returns (Some th) s' \<Rightarrow>
        th = Heap_thread 1 \<and> map_option tid (deref s' th) = Some 1 \<and>
        (\<forall>c. \<not> registered s' c th) \<and> get_thread 1 s' = Some (Heap_thread 0)
    | _ \<Rightarrow> False)"
    by (simp add: eval_defs wrapped_A_def registered_def get_thread_def)
  ultimately show ?thesis
    by (rule conjI)
qed

end
